(* ===== verification/VRR_Prelude.thy ===== *)
theory VRR_Prelude
  imports Main "HOL-Library.Word" "HOL-Library.Monad_Syntax" "HOL-Library.Multiset"
begin

unbundle bit_operations_syntax

text \<open>
  Shared vocabulary of the development: the machine integer types of the C sources, bounded
  C arrays as lists, the big-endian wire format that \<open>htonl\<close>/\<open>htons\<close> produce, and the
  collections of rewrite rules the component theories fill.

  A C function that may run into undefined behaviour (a NULL dereference, an access outside an
  array, taking a spin lock that is already held) is modelled with an \<open>option\<close> result: \<open>None\<close>
  says that the C program has no defined continuation, \<open>Some\<close> carries what it returns and the
  new state. The integer status codes of the sources (0, 1, -1, -EINVAL, ...) are ordinary
  results inside \<open>Some\<close>.
\<close>

named_theorems op_simps \<open>what an operation returns, one equation per operation\<close>
named_theorems frame_simps \<open>fields an operation leaves alone\<close>

lemmas run_simps = bind_eq_Some_conv

section \<open>Machine integers\<close>

type_synonym u8 = "8 word"
type_synonym u16 = "16 word"
type_synonym u32 = "32 word"
type_synonym mac_addr = "u8 list"

definition UINT_MAX :: u32 where
  "UINT_MAX = 0xFFFFFFFF"

definition INT_MAX :: nat where
  "INT_MAX = 2147483647"

lemma of_nat_u32_less: "m < 2 ^ 32 \<Longrightarrow> n < 2 ^ 32 \<Longrightarrow> (of_nat m :: u32) < of_nat n \<longleftrightarrow> m < n"
  by (simp add: word_less_nat_alt unsigned_of_nat take_bit_eq_mod)

lemma of_nat_u32_le: "m < 2 ^ 32 \<Longrightarrow> n < 2 ^ 32 \<Longrightarrow> (of_nat m :: u32) \<le> of_nat n \<longleftrightarrow> m \<le> n"
  by (simp add: word_le_nat_alt unsigned_of_nat take_bit_eq_mod)

section \<open>C arrays\<close>

text \<open>
  Reading element \<open>i\<close> of an array; storing a prefix into an array of \<open>n\<close> cells whose other cells
  keep what the memory held before (\<open>junk\<close>); passing the first \<open>n\<close> elements of an array on.
\<close>

definition idx :: "'a list \<Rightarrow> nat \<Rightarrow> 'a option" where
  "idx xs i = (if i < length xs then Some (xs ! i) else None)"

definition arr_upd :: "'a list \<Rightarrow> nat \<Rightarrow> 'a \<Rightarrow> 'a list option" where
  "arr_upd xs i v = (if i < length xs then Some (xs[i := v]) else None)"

definition fill_array :: "nat \<Rightarrow> 'a list \<Rightarrow> (nat \<Rightarrow> 'a) \<Rightarrow> 'a list option" where
  "fill_array n vals junk =
     (if length vals \<le> n then Some (vals @ map junk [length vals..<n]) else None)"

definition arr_prefix :: "nat \<Rightarrow> 'a list \<Rightarrow> 'a list option" where
  "arr_prefix n xs = (if n \<le> length xs then Some (take n xs) else None)"

lemma arr_prefix_all [simp]: "arr_prefix (length xs) xs = Some xs"
  by (simp add: arr_prefix_def)

text \<open>The array after storing \<open>ys\<close> from index \<open>i\<close> on.\<close>

definition splice_at :: "'a list \<Rightarrow> nat \<Rightarrow> 'a list \<Rightarrow> 'a list" where
  "splice_at xs i ys = take i xs @ ys @ drop (i + length ys) xs"

lemma splice_at_Nil [simp]: "splice_at xs i [] = xs"
  by (simp add: splice_at_def)

lemma splice_at_Cons: "i < length xs \<Longrightarrow> splice_at (xs[i := y]) (Suc i) ys = splice_at xs i (y # ys)"
  by (simp add: splice_at_def take_Suc_conv_app_nth)

lemma length_splice_at: "i + length ys \<le> length xs \<Longrightarrow> length (splice_at xs i ys) = length xs"
  by (simp add: splice_at_def)

section \<open>Operations that keep an invariant\<close>

text \<open>
  \<open>keeps I F f\<close>: whenever \<open>f\<close> returns from a state with \<open>I\<close>, the new state has \<open>I\<close> again and is related to the
  old one by the frame \<open>F\<close>; \<open>keeps1\<close> is the same for an operation with no result. The rules follow the
  constructs an operation is written with; they are proved once, for any frame.
\<close>

definition keeps :: "('s \<Rightarrow> bool) \<Rightarrow> ('s \<Rightarrow> 's \<Rightarrow> bool) \<Rightarrow> ('s \<Rightarrow> ('a \<times> 's) option) \<Rightarrow> bool" where
  "keeps I F f \<longleftrightarrow> (\<forall>s r t. I s \<longrightarrow> f s = Some (r, t) \<longrightarrow> I t \<and> F s t)"

definition keeps1 :: "('s \<Rightarrow> bool) \<Rightarrow> ('s \<Rightarrow> 's \<Rightarrow> bool) \<Rightarrow> ('s \<Rightarrow> 's option) \<Rightarrow> bool" where
  "keeps1 I F f \<longleftrightarrow> (\<forall>s t. I s \<longrightarrow> f s = Some t \<longrightarrow> I t \<and> F s t)"

lemma keepsD: "keeps I F f \<Longrightarrow> I s \<Longrightarrow> f s = Some (r, t) \<Longrightarrow> I t \<and> F s t"
  by (auto simp: keeps_def)

lemma keeps1D: "keeps1 I F f \<Longrightarrow> I s \<Longrightarrow> f s = Some t \<Longrightarrow> I t \<and> F s t"
  by (auto simp: keeps1_def)

lemma keeps_read: "(\<And>y. keeps I F (g y)) \<Longrightarrow> keeps I F (\<lambda>s. h s \<bind> (\<lambda>y. g y s))"
  by (fastforce simp: keeps_def bind_eq_Some_conv)

lemma keeps_let: "(\<And>y. keeps I F (g y)) \<Longrightarrow> keeps I F (\<lambda>s. let y = h s in g y s)"
  by (simp add: keeps_def Let_def)

lemma keeps_if: "keeps I F f \<Longrightarrow> keeps I F g \<Longrightarrow> keeps I F (\<lambda>s. if b s then f s else g s)"
  unfolding keeps_def by (metis (full_types))

lemma keeps_option: "keeps I F f \<Longrightarrow> (\<And>x. keeps I F (g x)) \<Longrightarrow> keeps I F (\<lambda>s. case x of None \<Rightarrow> f s | Some y \<Rightarrow> g y s)"
  by (cases x) auto

lemma keeps_list: "keeps I F f \<Longrightarrow> (\<And>x xs. keeps I F (g x xs)) \<Longrightarrow> keeps I F (\<lambda>s. case l of [] \<Rightarrow> f s | x # xs \<Rightarrow> g x xs s)"
  by (cases l) auto

lemma keeps_prod: "(\<And>a b. keeps I F (g a b)) \<Longrightarrow> keeps I F (\<lambda>s. case p of (a, b) \<Rightarrow> g a b s)"
  by (cases p) auto

lemma keeps_prod_fun: "(\<And>a b. keeps I F (g a b)) \<Longrightarrow> keeps I F (case p of (a, b) \<Rightarrow> g a b)"
  by (cases p) auto

lemma keeps1_if: "keeps1 I F f \<Longrightarrow> keeps1 I F g \<Longrightarrow> keeps1 I F (\<lambda>s. if b s then f s else g s)"
  unfolding keeps1_def by (metis (full_types))

lemma keeps1_option: "keeps1 I F f \<Longrightarrow> (\<And>x. keeps1 I F (g x)) \<Longrightarrow> keeps1 I F (\<lambda>s. case x of None \<Rightarrow> f s | Some y \<Rightarrow> g y s)"
  by (cases x) auto

lemma keeps1_read: "(\<And>y. keeps1 I F (g y)) \<Longrightarrow> keeps1 I F (\<lambda>s. h s \<bind> (\<lambda>y. g y s))"
  by (fastforce simp: keeps1_def bind_eq_Some_conv)

lemma keeps1_let: "(\<And>y. keeps1 I F (g y)) \<Longrightarrow> keeps1 I F (\<lambda>s. let y = h s in g y s)"
  by (simp add: keeps1_def Let_def)

lemma keeps1_prod: "(\<And>a b. keeps1 I F (g a b)) \<Longrightarrow> keeps1 I F (\<lambda>s. case p of (a, b) \<Rightarrow> g a b s)"
  by (cases p) auto

locale state_frame =
  fixes I :: "'s \<Rightarrow> bool" and F :: "'s \<Rightarrow> 's \<Rightarrow> bool"
  assumes frame_refl: "F s s"
    and frame_trans: "F s t \<Longrightarrow> F t u \<Longrightarrow> F s u"
begin

lemma return: "keeps I F (\<lambda>s. Some (r, s))" "keeps1 I F Some"
  by (simp_all add: keeps_def keeps1_def frame_refl)

lemma bind:
  assumes "keeps I F f" "\<And>r. keeps I F (g r)"
  shows "keeps I F (\<lambda>s. f s \<bind> (\<lambda>(r, s). g r s))"
  unfolding keeps_def
proof (intro allI impI)
  fix s r u assume "I s" and run: "f s \<bind> (\<lambda>(r, s). g r s) = Some (r, u)"
  then obtain x t where "f s = Some (x, t)" "g x t = Some (r, u)" by (auto simp: bind_eq_Some_conv)
  then have "I t \<and> F s t" and "I t \<Longrightarrow> I u \<and> F t u" by (auto dest: keepsD [OF assms(1) \<open>I s\<close>] keepsD [OF assms(2)])
  then show "I u \<and> F s u" using frame_trans [of s t u] by simp
qed

lemma bind1:
  assumes "keeps1 I F f" "keeps I F g"
  shows "keeps I F (\<lambda>s. f s \<bind> g)"
  unfolding keeps_def
proof (intro allI impI)
  fix s r u assume "I s" and run: "f s \<bind> g = Some (r, u)"
  then obtain t where "f s = Some t" "g t = Some (r, u)" by (auto simp: bind_eq_Some_conv)
  then have "I t \<and> F s t" and "I t \<Longrightarrow> I u \<and> F t u" by (auto dest: keeps1D [OF assms(1) \<open>I s\<close>] keepsD [OF assms(2)])
  then show "I u \<and> F s u" using frame_trans [of s t u] by simp
qed

lemma let_bind:
  assumes "\<And>s. I s \<Longrightarrow> I (snd (f s)) \<and> F s (snd (f s))" "\<And>r. keeps I F (g r)"
  shows "keeps I F (\<lambda>s. let (r, s) = f s in g r s)"
  unfolding keeps_def
proof (intro allI impI)
  fix s r u assume "I s" and run: "(let (r, s) = f s in g r s) = Some (r, u)"
  then have "g (fst (f s)) (snd (f s)) = Some (r, u)" by (simp add: split_beta)
  then show "I u \<and> F s u"
    using assms(1) [OF \<open>I s\<close>] keepsD [OF assms(2), of "snd (f s)" "fst (f s)" r u] frame_trans [of s "snd (f s)" u] by simp
qed

lemma seq:
  assumes "keeps I F f" "\<And>r. keeps1 I F (g r)"
  shows "keeps1 I F (\<lambda>s. f s \<bind> (\<lambda>(r, s). g r s))"
  unfolding keeps1_def
proof (intro allI impI)
  fix s u assume "I s" and run: "f s \<bind> (\<lambda>(r, s). g r s) = Some u"
  then obtain x t where "f s = Some (x, t)" "g x t = Some u" by (auto simp: bind_eq_Some_conv)
  then have "I t \<and> F s t" and "I t \<Longrightarrow> I u \<and> F t u" by (auto dest: keepsD [OF assms(1) \<open>I s\<close>] keeps1D [OF assms(2)])
  then show "I u \<and> F s u" using frame_trans [of s t u] by simp
qed

lemma seq1:
  assumes "keeps1 I F f" "keeps1 I F g"
  shows "keeps1 I F (\<lambda>s. f s \<bind> g)"
  unfolding keeps1_def
proof (intro allI impI)
  fix s u assume "I s" and run: "f s \<bind> g = Some u"
  then obtain t where "f s = Some t" "g t = Some u" by (auto simp: bind_eq_Some_conv)
  then have "I t \<and> F s t" and "I t \<Longrightarrow> I u \<and> F t u" by (auto dest: keeps1D [OF assms(1) \<open>I s\<close>] keeps1D [OF assms(2)])
  then show "I u \<and> F s u" using frame_trans [of s t u] by simp
qed

end

section \<open>First match in a linked list\<close>

text \<open>
  Every \<open>list_for_each\<close> search of the sources stops at the first element whose key matches;
  \<open>list_del\<close> unlinks the element the loop stands on.
\<close>

definition first_match :: "('a \<Rightarrow> bool) \<Rightarrow> 'a list \<Rightarrow> 'a option" where
  "first_match P xs = List.find P xs"

fun del_first :: "('a \<Rightarrow> bool) \<Rightarrow> 'a list \<Rightarrow> 'a list" where
  "del_first P [] = []"
| "del_first P (x # xs) = (if P x then xs else x # del_first P xs)"

fun upd_first :: "('a \<Rightarrow> bool) \<Rightarrow> ('a \<Rightarrow> 'a) \<Rightarrow> 'a list \<Rightarrow> 'a list" where
  "upd_first P f [] = []"
| "upd_first P f (x # xs) = (if P x then f x # xs else x # upd_first P f xs)"

lemma first_match_simps [simp]:
  "first_match P [] = None"
  "first_match P (x # xs) = (if P x then Some x else first_match P xs)"
  by (simp_all add: first_match_def)

lemma first_match_None_iff: "first_match P xs = None \<longleftrightarrow> (\<forall>x \<in> set xs. \<not> P x)"
  by (induction xs) auto

lemma first_match_SomeD: "first_match P xs = Some x \<Longrightarrow> x \<in> set xs \<and> P x"
  by (induction xs) (auto split: if_splits)

lemma del_first_id: "\<forall>x \<in> set xs. \<not> P x \<Longrightarrow> del_first P xs = xs"
  by (induction xs) auto

lemma set_del_first_subset: "set (del_first P xs) \<subseteq> set xs"
  by (induction xs) auto

lemma length_del_first: "length (del_first P xs) = (if \<exists>x \<in> set xs. P x then length xs - 1 else length xs)"
  by (induction xs) (auto simp: Suc_diff_1 length_greater_0_conv [symmetric]
      simp del: length_greater_0_conv dest: length_pos_if_in_set)

lemma first_match_nth:
  "distinct (map g xs) \<Longrightarrow> k < length xs \<Longrightarrow> first_match (\<lambda>x. g x = g (xs ! k)) xs = Some (xs ! k)"
  by (induction xs arbitrary: k) (auto simp: nth_Cons image_iff split: nat.splits)

lemma del_first_nth:
  "distinct (map g xs) \<Longrightarrow> k < length xs \<Longrightarrow>
     del_first (\<lambda>x. g x = g (xs ! k)) xs = take k xs @ drop (Suc k) xs"
  by (induction xs arbitrary: k) (auto simp: nth_Cons image_iff split: nat.splits)

lemma distinct_map_del_first: "distinct (map f xs) \<Longrightarrow> distinct (map f (del_first P xs))"
  by (induction xs) (auto dest: subsetD [OF set_del_first_subset])

lemma length_upd_first [simp]: "length (upd_first P f xs) = length xs"
  by (induction xs) auto

lemma upd_first_id: "first_match P xs = None \<Longrightarrow> upd_first P f xs = xs"
  by (induction xs) (auto split: if_splits)

lemma map_upd_first: "(\<And>x. g (f x) = g x) \<Longrightarrow> map g (upd_first P f xs) = map g xs"
  by (induction xs) auto

lemma set_upd_first: "y \<in> set (upd_first P f xs) \<Longrightarrow> y \<in> set xs \<or> (\<exists>x \<in> set xs. P x \<and> y = f x)"
  by (induction xs) (auto split: if_splits)

text \<open>A list keyed by a field with no two equal keys: looking a key up finds its one element.\<close>

lemma first_match_distinct:
  "distinct (map k xs) \<Longrightarrow> x \<in> set xs \<Longrightarrow> first_match (\<lambda>y. k y = k x) xs = Some x"
  by (induction xs) (auto simp: image_iff)

text \<open>
  The interface of such a keyed list, whatever the elements are: it is used for the physical set
  and the virtual set (keyed by the node) and for the routes of an endpoint (keyed by the path).
\<close>

locale keyed_list =
  fixes key :: "'e \<Rightarrow> 'k"
begin

lemma lookup_upd_first:
  assumes "\<And>x. key (f x) = key x"
  shows "first_match (\<lambda>x. key x = j) (upd_first (\<lambda>x. key x = k) f xs) =
    (if j = k then map_option f (first_match (\<lambda>x. key x = j) xs) else first_match (\<lambda>x. key x = j) xs)"
  using assms by (induction xs) auto

lemma lookup_None_iff: "first_match (\<lambda>x. key x = k) xs = None \<longleftrightarrow> k \<notin> key ` set xs"
  by (auto simp: first_match_None_iff)

lemma del_absent: "k \<notin> key ` set xs \<Longrightarrow> del_first (\<lambda>x. key x = k) xs = xs"
  by (rule del_first_id) auto

lemma lookup_filter:
  "first_match (\<lambda>x. key x = j) (filter (\<lambda>x. key x \<noteq> k) xs) =
     (if j = k then None else first_match (\<lambda>x. key x = j) xs)"
  by (induction xs) auto

end

section \<open>Network byte order\<close>

definition be16 :: "u16 \<Rightarrow> u8 list" where
  "be16 x = [ucast (drop_bit 8 x), ucast x]"

definition un_be16 :: "u8 \<Rightarrow> u8 \<Rightarrow> u16" where
  "un_be16 a b = push_bit 8 (ucast a) OR ucast b"

definition be32 :: "u32 \<Rightarrow> u8 list" where
  "be32 x = [ucast (drop_bit 24 x), ucast (drop_bit 16 x), ucast (drop_bit 8 x), ucast x]"

definition un_be32 :: "u8 \<Rightarrow> u8 \<Rightarrow> u8 \<Rightarrow> u8 \<Rightarrow> u32" where
  "un_be32 a b c d =
     push_bit 24 (ucast a) OR push_bit 16 (ucast b) OR push_bit 8 (ucast c) OR ucast d"

text \<open>The words a byte run holds, four bytes each; a shorter rest is not a word.\<close>

fun words_of :: "u8 list \<Rightarrow> u32 list" where
  "words_of (a # b # c # d # rest) = un_be32 a b c d # words_of rest"
| "words_of _ = []"

lemma length_be16 [simp]: "length (be16 x) = 2"
  by (simp add: be16_def)

lemma length_be32 [simp]: "length (be32 x) = 4"
  by (simp add: be32_def)

lemma un_be16_be16: "un_be16 (ucast (drop_bit 8 x)) (ucast x) = x"
proof (rule bit_word_eqI)
  fix n assume "n < LENGTH(16)"
  then have "n < 8 \<or> 8 \<le> n \<and> n - 8 < 8" by auto
  then show "bit (un_be16 (ucast (drop_bit 8 x)) (ucast x)) n = bit x n"
    using \<open>n < LENGTH(16)\<close> by (auto simp: un_be16_def bit_simps)
qed

lemma un_be32_be32:
  "un_be32 (ucast (drop_bit 24 x)) (ucast (drop_bit 16 x)) (ucast (drop_bit 8 x)) (ucast x) = x"
proof (rule bit_word_eqI)
  fix n assume "n < LENGTH(32)"
  then have "n < 8 \<or> (8 \<le> n \<and> n < 16) \<or> (16 \<le> n \<and> n < 24) \<or> (24 \<le> n \<and> n < 32)" by auto
  then show "bit (un_be32 (ucast (drop_bit 24 x)) (ucast (drop_bit 16 x)) (ucast (drop_bit 8 x))
      (ucast x)) n = bit x n"
    by (elim disjE) (auto simp: un_be32_def bit_simps)
qed

lemma words_of_be32 [simp]: "words_of (be32 x @ rest) = x # words_of rest"
  by (simp add: be32_def un_be32_be32)

lemma words_of_be32s: "words_of (concat (map be32 xs)) = xs"
  by (induction xs) auto

lemma length_be32s: "length (concat (map be32 xs)) = 4 * length xs"
  by (induction xs) auto

end
