(* ===== verification/VRR_Types.thy ===== *)
theory VRR_Types
  imports VRR_Prelude "HOL-Library.Tree"
begin

text \<open>
  The constants and structures of \<open>vrr.h\<close>, \<open>vrr_data.h\<close> and of the file-local types of
  \<open>vrr_data.c\<close>, \<open>vrr_input.c\<close>: one record per C struct, with the fields in the order of the
  source. A \<open>struct list_head\<close> member is not a field: a linked list is an Isabelle list in
  traversal order. Signed fields that the code only ever compares with unsigned ones
  (\<open>path_id\<close>, \<open>diff_left\<close>, \<open>diff_right\<close>, \<open>active\<close>) keep their bit pattern as a 32-bit word,
  which is what C's conversion to unsigned compares.
\<close>

section \<open>Constants\<close>

abbreviation (input) AF_VRR :: u16 where "AF_VRR \<equiv> 27"
abbreviation (input) PF_VRR :: u16 where "PF_VRR \<equiv> AF_VRR"
abbreviation (input) ETH_P_VRR :: u16 where "ETH_P_VRR \<equiv> 0x8777"

abbreviation (input) VRR_DATA :: u8 where "VRR_DATA \<equiv> 0"
abbreviation (input) VRR_HELLO :: u8 where "VRR_HELLO \<equiv> 1"
abbreviation (input) VRR_SETUP_REQ :: u8 where "VRR_SETUP_REQ \<equiv> 2"
abbreviation (input) VRR_SETUP :: u8 where "VRR_SETUP \<equiv> 3"
abbreviation (input) VRR_SETUP_FAIL :: u8 where "VRR_SETUP_FAIL \<equiv> 4"
abbreviation (input) VRR_TEARDOWN :: u8 where "VRR_TEARDOWN \<equiv> 5"
abbreviation (input) VRR_NPTYPES :: u8 where "VRR_NPTYPES \<equiv> 6"

abbreviation (input) VRR_SKB_RESERVE :: nat where "VRR_SKB_RESERVE \<equiv> 80"
abbreviation (input) VRR_VSET_SIZE :: nat where "VRR_VSET_SIZE \<equiv> 4"
abbreviation (input) VRR_PSET_SIZE :: nat where "VRR_PSET_SIZE \<equiv> 20"
abbreviation (input) VRR_FAIL_TIMEOUT :: u32 where "VRR_FAIL_TIMEOUT \<equiv> 4"
abbreviation (input) VRR_ACTIVE_TIMEOUT :: int where "VRR_ACTIVE_TIMEOUT \<equiv> 8"
abbreviation (input) ETH_ALEN :: nat where "ETH_ALEN \<equiv> 6"

abbreviation (input) PSET_LINKED :: u32 where "PSET_LINKED \<equiv> 0"
abbreviation (input) PSET_PENDING :: u32 where "PSET_PENDING \<equiv> 1"
abbreviation (input) PSET_FAILED :: u32 where "PSET_FAILED \<equiv> 2"
abbreviation (input) PSET_UNKNOWN :: u32 where "PSET_UNKNOWN \<equiv> 3"

abbreviation (input) TRANS_LINKED :: nat where "TRANS_LINKED \<equiv> 0"
abbreviation (input) TRANS_PENDING :: nat where "TRANS_PENDING \<equiv> 1"
abbreviation (input) TRANS_MISSING :: nat where "TRANS_MISSING \<equiv> 2"

section \<open>Structures\<close>

record rt_entry =
  ea :: u32
  eb :: u32
  na :: u32
  nb :: u32
  path_id :: u32

record rt_node =
  endpoint :: u32
  routes :: "rt_entry list"

record pset_entry =
  pl_node :: u32
  pl_status :: u32
  pl_active :: u32
  pl_mac :: mac_addr
  fail_count :: u32

record vset_entry =
  vl_node :: u32
  diff_left :: u32
  diff_right :: u32

record pset_state =
  l_active :: "u32 list"
  l_not_active :: "u32 list"
  pending :: "u32 list"
  la_mac :: "mac_addr list"
  lna_mac :: "mac_addr list"
  pending_mac :: "mac_addr list"
  la_size :: nat
  lna_size :: nat
  p_size :: nat
  lam_size :: nat
  lnam_size :: nat
  pm_size :: nat

record vrr_node =
  vn_id :: u32
  vn_vset_size :: int
  vn_rtable_value :: int
  vn_version :: u8
  vn_active :: u32
  vn_timeout :: int
  vn_dev_list :: "string list"

record vrr_packet =
  pk_src :: u32
  pk_dst :: u32
  pk_data_len :: u16
  pk_pkt_type :: u8
  pk_dest_mac :: mac_addr

record vrr_header =
  vrr_version :: u8
  pkt_type :: u8
  protocol :: u16
  data_len :: u16
  free_byte :: u8
  h_csum :: u16
  src_id :: u32
  dest_id :: u32
  dest_mac :: mac_addr

record pset_update =
  pu_node :: u32
  pu_mac :: mac_addr
  pu_trans :: nat
  pu_active :: u32

text \<open>
  A socket buffer at the network layer: its identity (for the reference count), the bytes from
  the VRR header on, and for a received one the Ethernet source address and the address of the
  device it came in on.
\<close>

record sk_buff =
  skb_id :: nat
  skb_data :: "u8 list"
  skb_src_mac :: mac_addr
  skb_dev_addr :: mac_addr

section \<open>The header on the wire\<close>

text \<open>
  \<open>struct vrr_header\<close> as the compiler lays it out: two bytes, two 16-bit fields, \<open>free\<close> and a
  padding byte, \<open>h_csum\<close>, two padding bytes, the two identifiers, the destination address and
  two padding bytes: 28 bytes in all. The record holds host-order values; the bytes are those
  \<open>htons\<close>/\<open>htonl\<close> store. The padding bytes are what the stack held (\<open>pad\<close>).
\<close>

definition sizeof_vrr_header :: nat where
  "sizeof_vrr_header = 28"

definition header_bytes :: "(nat \<Rightarrow> u8) \<Rightarrow> vrr_header \<Rightarrow> u8 list" where
  "header_bytes pad h =
     [vrr_version h, pkt_type h] @ be16 (protocol h) @ be16 (data_len h)
     @ [free_byte h, pad 0] @ be16 (h_csum h) @ [pad 1, pad 2]
     @ be32 (src_id h) @ be32 (dest_id h) @ dest_mac h @ [pad 3, pad 4]"

text \<open>\<open>vrr_hdr\<close>: the header a buffer starts with; reading it from a shorter buffer is undefined.\<close>

fun parse_header :: "u8 list \<Rightarrow> vrr_header option" where
  "parse_header (v # t # p0 # p1 # l0 # l1 # f # _ # c0 # c1 # _ # _ # s0 # s1 # s2 # s3
      # d0 # d1 # d2 # d3 # m0 # m1 # m2 # m3 # m4 # m5 # _ # _ # payload) =
     Some \<lparr>vrr_version = v, pkt_type = t, protocol = un_be16 p0 p1, data_len = un_be16 l0 l1,
       free_byte = f, h_csum = un_be16 c0 c1, src_id = un_be32 s0 s1 s2 s3,
       dest_id = un_be32 d0 d1 d2 d3, dest_mac = [m0, m1, m2, m3, m4, m5]\<rparr>"
| "parse_header _ = None"

definition vrr_hdr :: "sk_buff \<Rightarrow> vrr_header option" where
  "vrr_hdr skb = parse_header (skb_data skb)"

text \<open>\<open>memcpy(myvh->dest_mac, mac, 6)\<close> on the header in place.\<close>

definition set_dest_mac :: "mac_addr \<Rightarrow> u8 list \<Rightarrow> u8 list" where
  "set_dest_mac m d = take 20 d @ m @ drop 26 d"

lemma length_header_bytes:
  "length (dest_mac h) = ETH_ALEN \<Longrightarrow> length (header_bytes pad h) = sizeof_vrr_header"
  by (simp add: header_bytes_def sizeof_vrr_header_def)

lemma list_length6: "length xs = 6 \<Longrightarrow> \<exists>a b c d e f. xs = [a, b, c, d, e, f]"
  by (auto simp: numeral_eq_Suc length_Suc_conv)

lemma parse_header_bytes:
  assumes "length (dest_mac h) = ETH_ALEN"
  shows "parse_header (header_bytes pad h @ payload) = Some h"
proof -
  obtain a b c d e f where m: "dest_mac h = [a, b, c, d, e, f]"
    using list_length6 [OF assms] by blast
  show ?thesis
    by (simp add: header_bytes_def be16_def be32_def m un_be16_be16 un_be32_be32)
qed

lemma set_dest_mac_header:
  assumes "length (dest_mac h) = ETH_ALEN" "length m = ETH_ALEN"
  shows "set_dest_mac m (header_bytes pad h @ payload) = header_bytes pad (h\<lparr>dest_mac := m\<rparr>) @ payload"
  using assms by (simp add: header_bytes_def set_dest_mac_def be16_def be32_def)

section \<open>Reading a buffer\<close>

text \<open>
  \<open>skb_copy_bits\<close> copies \<open>len\<close> bytes from an offset and fails, leaving the target alone, when the
  buffer is too short. The callers ignore its result, so a variable it was to fill then keeps
  the value its memory happened to have.
\<close>

definition skb_copy_bits :: "sk_buff \<Rightarrow> nat \<Rightarrow> nat \<Rightarrow> u8 list option" where
  "skb_copy_bits skb off len =
     (if off + len \<le> length (skb_data skb) then Some (take len (drop off (skb_data skb))) else None)"

definition read_u32 :: "sk_buff \<Rightarrow> nat \<Rightarrow> u32 \<Rightarrow> u32" where
  "read_u32 skb off old = (case skb_copy_bits skb off 4 of None \<Rightarrow> old | Some bs \<Rightarrow> hd (words_of bs))"

definition read_u32s :: "sk_buff \<Rightarrow> nat \<Rightarrow> nat \<Rightarrow> (nat \<Rightarrow> u32) \<Rightarrow> u32 list" where
  "read_u32s skb off n old =
     (case skb_copy_bits skb off (4 * n) of None \<Rightarrow> map old [0..<n] | Some bs \<Rightarrow> words_of bs)"

lemma words_of_length: "length bs = 4 * n \<Longrightarrow> length (words_of bs) = n"
proof (induction bs arbitrary: n rule: words_of.induct)
  case (1 a b c d rest)
  then show ?case by (cases n) auto
qed auto

lemma length_read_u32s [simp]: "length (read_u32s skb off n old) = n"
  by (auto simp: read_u32s_def skb_copy_bits_def words_of_length split: option.split if_splits)

text \<open>Reading back words a sender put into the buffer, at the place it put them.\<close>

lemma read_u32_at:
  assumes "skb_data skb = pre @ be32 x @ post" "off = length pre"
  shows "read_u32 skb off old = x"
  using assms by (simp add: read_u32_def skb_copy_bits_def be32_def un_be32_be32)

lemma read_u32s_at:
  assumes "skb_data skb = pre @ concat (map be32 xs) @ post" "off = length pre" "n = length xs"
  shows "read_u32s skb off n old = xs"
  using assms by (simp add: read_u32s_def skb_copy_bits_def length_be32s words_of_be32s)

end
