(* ===== verification/Kernel.thy ===== *)
theory Kernel
  imports VRR_Types
begin

text \<open>
  The kernel services the module calls. What they answer is not the module's code: it is a
  parameter, the record \<open>kenv\<close>, given to every operation that uses it. Each call of a service
  that may answer differently every time (allocation, random numbers, the contents of fresh
  memory) takes the next answer of a stream, counted by \<open>clock\<close>, so a theorem for every \<open>kenv\<close>
  holds for every sequence of answers.

  The state \<open>kern\<close> is the part of the machine state these services change: the number of
  answers consumed, the frames handed to \<open>dev_queue_xmit\<close>, the reference counts of socket
  buffers and of devices, and the spin locks held. Each component extends this record by the
  global variables of its source file.
\<close>

datatype lock = vrr_rt_lock | vrr_vset_lock | vrr_pset_lock | vrr_socks_lock

record frame =
  fr_dev :: string
  fr_dest :: mac_addr
  fr_src :: mac_addr
  fr_proto :: u16
  fr_data :: "u8 list"

record kenv =
  k_random :: "nat \<Rightarrow> u32"
  k_alloc :: "nat \<Rightarrow> bool"
  k_junk :: "nat \<Rightarrow> nat \<Rightarrow> u32"
  k_rb_insert_color :: "u32 \<Rightarrow> rt_node tree \<Rightarrow> rt_node tree"
  k_sort :: "(u32 list \<Rightarrow> nat \<Rightarrow> nat \<Rightarrow> int) \<Rightarrow> u32 list \<Rightarrow> u32 list"
  k_dev :: "string \<Rightarrow> mac_addr option"
  k_netdevs :: "string list"

record kio =
  clock :: nat
  tx :: "frame list"
  next_skb :: nat
  skb_users :: "nat \<Rightarrow> int"
  dev_refs :: "string \<Rightarrow> int"

record kern =
  io :: kio
  held :: "lock \<Rightarrow> bool"

section \<open>Services\<close>

definition tick :: "'z kern_scheme \<Rightarrow> 'z kern_scheme" where
  "tick s = s\<lparr>io := (io s)\<lparr>clock := Suc (clock (io s))\<rparr>\<rparr>"

definition get_random_bytes :: "kenv \<Rightarrow> 'z kern_scheme \<Rightarrow> u32 \<times> 'z kern_scheme" where
  "get_random_bytes K s = (k_random K (clock (io s)), tick s)"

text \<open>\<open>kmalloc(0)\<close> is \<open>ZERO_SIZE_PTR\<close>, which is not NULL.\<close>

definition kmalloc :: "kenv \<Rightarrow> nat \<Rightarrow> 'z kern_scheme \<Rightarrow> bool \<times> 'z kern_scheme" where
  "kmalloc K n s = (n = 0 \<or> k_alloc K (clock (io s)), tick s)"

text \<open>The contents of a stack frame or of fresh memory before anything is stored in it.\<close>

definition uninit :: "kenv \<Rightarrow> 'z kern_scheme \<Rightarrow> (nat \<Rightarrow> u32) \<times> 'z kern_scheme" where
  "uninit K s = (k_junk K (clock (io s)), tick s)"

definition junk_mac :: "(nat \<Rightarrow> u32) \<Rightarrow> nat \<Rightarrow> mac_addr" where
  "junk_mac j base = map (\<lambda>i. ucast (j (base + i))) [0..<ETH_ALEN]"

text \<open>
  A spin lock is not recursive: the holder that takes it again waits for ever. Releasing one
  that is not held is an error of the caller.
\<close>

definition spin_lock :: "lock \<Rightarrow> 'z kern_scheme \<Rightarrow> 'z kern_scheme option" where
  "spin_lock l s = (if held s l then None else Some (s\<lparr>held := (held s)(l := True)\<rparr>))"

definition spin_unlock :: "lock \<Rightarrow> 'z kern_scheme \<Rightarrow> 'z kern_scheme option" where
  "spin_unlock l s = (if held s l then Some (s\<lparr>held := (held s)(l := False)\<rparr>) else None)"

text \<open>\<open>vrr_skb_alloc\<close> (\<open>vrr.h\<close>): a new buffer with one user, or NULL.\<close>

definition vrr_skb_alloc :: "kenv \<Rightarrow> u8 list \<Rightarrow> 'z kern_scheme \<Rightarrow> sk_buff option \<times> 'z kern_scheme" where
  "vrr_skb_alloc K payload s =
     (if k_alloc K (clock (io s))
      then (Some \<lparr>skb_id = next_skb (io s), skb_data = payload, skb_src_mac = [], skb_dev_addr = []\<rparr>,
            s\<lparr>io := (io s)\<lparr>clock := Suc (clock (io s)), next_skb := Suc (next_skb (io s)),
                skb_users := (skb_users (io s))(next_skb (io s) := 1)\<rparr>\<rparr>)
      else (None, tick s))"

text \<open>
  \<open>kfree_skb\<close> drops one user. The count is an integer: a value below zero records a buffer that
  was freed more often than it was owned.
\<close>

definition kfree_skb :: "nat \<Rightarrow> 'z kern_scheme \<Rightarrow> 'z kern_scheme" where
  "kfree_skb i s = s\<lparr>io := (io s)\<lparr>skb_users := (skb_users (io s))(i := skb_users (io s) i - 1)\<rparr>\<rparr>"

definition dev_get :: "string \<Rightarrow> 'z kern_scheme \<Rightarrow> 'z kern_scheme" where
  "dev_get d s = s\<lparr>io := (io s)\<lparr>dev_refs := (dev_refs (io s))(d := dev_refs (io s) d + 1)\<rparr>\<rparr>"

definition dev_put :: "string \<Rightarrow> 'z kern_scheme \<Rightarrow> 'z kern_scheme" where
  "dev_put d s = s\<lparr>io := (io s)\<lparr>dev_refs := (dev_refs (io s))(d := dev_refs (io s) d - 1)\<rparr>\<rparr>"

definition dev_queue_xmit :: "frame \<Rightarrow> 'z kern_scheme \<Rightarrow> 'z kern_scheme" where
  "dev_queue_xmit f s = s\<lparr>io := (io s)\<lparr>tx := tx (io s) @ [f]\<rparr>\<rparr>"

section \<open>What the module relies on\<close>

text \<open>
  Rebalancing a red-black tree (\<open>rb_insert_color\<close>) keeps its in-order sequence. The kernel's
  \<open>sort\<close> only exchanges elements of the array; with a comparison that looks at the addresses of
  the two elements and never at their contents, which exchanges it makes depends on the length
  of the array alone.
\<close>

definition rb_keeps_order :: "kenv \<Rightarrow> bool" where
  "rb_keeps_order K \<longleftrightarrow> (\<forall>e t. inorder (k_rb_insert_color K e t) = inorder t)"

definition address_only :: "(u32 list \<Rightarrow> nat \<Rightarrow> nat \<Rightarrow> int) \<Rightarrow> bool" where
  "address_only cmp \<longleftrightarrow> (\<forall>m m' a b. cmp m a b = cmp m' a b)"

definition sort_by_address :: "kenv \<Rightarrow> bool" where
  "sort_by_address K \<longleftrightarrow>
     (\<forall>cmp n. address_only cmp \<longrightarrow>
        (\<exists>p. bij_betw p {..<n} {..<n} \<and>
             (\<forall>xs. length xs = n \<longrightarrow> k_sort K cmp xs = map (\<lambda>i. xs ! p i) [0..<n])))"

section \<open>Steps that only touch the kernel's side\<close>

text \<open>
  Sending and allocating change \<open>io\<close> and nothing else. \<open>io_only s t\<close> says so; every global variable
  of the module then has the same value in \<open>t\<close>.
\<close>

definition io_only :: "'z kern_scheme \<Rightarrow> 'z kern_scheme \<Rightarrow> bool" where
  "io_only s t \<longleftrightarrow> t = s\<lparr>io := io t\<rparr>"

lemma io_only_refl [simp, intro]: "io_only s s"
  by (simp add: io_only_def)

lemma io_onlyI: "io_only s (s\<lparr>io := i\<rparr>)"
  by (simp add: io_only_def)

lemma io_only_trans [trans]: "io_only s t \<Longrightarrow> io_only t u \<Longrightarrow> io_only s u"
  unfolding io_only_def by (metis kern.update_convs(1) kern.surjective)

lemma io_onlyE:
  assumes "io_only s t"
  obtains i where "t = s\<lparr>io := i\<rparr>"
  using assms by (auto simp: io_only_def)

lemma io_only_sym: "io_only s t \<Longrightarrow> io_only t s"
  by (erule io_onlyE) (simp add: io_only_def)

lemma io_only_held: "io_only s t \<Longrightarrow> held t = held s"
  by (auto elim: io_onlyE)

lemma io_only_tick [simp, intro]: "io_only s (tick s)"
  by (simp add: tick_def io_onlyI)

lemma io_only_tick2 [simp, intro]: "io_only s (tick (tick s))"
  by (rule io_only_trans [OF io_only_tick io_only_tick])

lemma io_only_tick_iff: "io_only (tick s) t \<longleftrightarrow> io_only s t"
  using io_only_trans io_only_tick io_only_sym by metis

lemma io_only_services [simp, intro]:
  "io_only s (kfree_skb i s)" "io_only s (dev_get d s)" "io_only s (dev_put d s)"
  "io_only s (dev_queue_xmit f s)"
  by (simp_all add: kfree_skb_def dev_get_def dev_put_def dev_queue_xmit_def io_onlyI)

lemma io_only_skb_alloc: "vrr_skb_alloc K d s = (x, t) \<Longrightarrow> io_only s t"
  by (auto simp: vrr_skb_alloc_def io_onlyI split: if_splits)

section \<open>Locks\<close>

definition unlocked :: "'z kern_scheme \<Rightarrow> bool" where
  "unlocked s \<longleftrightarrow> (\<forall>l. \<not> held s l)"

lemma unlockedD [simp]: "unlocked s \<Longrightarrow> held s l = False"
  by (simp add: unlocked_def)

lemma unlocked_io_only: "io_only s t \<Longrightarrow> unlocked t = unlocked s"
  by (auto simp: unlocked_def io_only_held)

lemma held_idem: "\<not> held s l \<Longrightarrow> s\<lparr>held := (held s)(l := False)\<rparr> = s"
  by (simp add: fun_upd_idem)

section \<open>A concrete environment\<close>

text \<open>
  An environment for evaluating the model on examples: allocation always succeeds, fresh memory
  is zero, trees are not rebalanced, an address comparison leaves an array in place, and every
  device exists. The idle machine has sent nothing and holds no lock.
\<close>

definition demo_env :: kenv where
  "demo_env = \<lparr>k_random = (\<lambda>n. of_nat (n + 7)), k_alloc = (\<lambda>n. True), k_junk = (\<lambda>n i. 0),
     k_rb_insert_color = (\<lambda>e t. t), k_sort = (\<lambda>cmp xs. xs),
     k_dev = (\<lambda>d. Some [2, 0, 0, 0, 0, 1]), k_netdevs = [''lo'', ''eth0'', ''wlan0'']\<rparr>"

definition idle_io :: kio where
  "idle_io = \<lparr>clock = 0, tx = [], next_skb = 0, skb_users = (\<lambda>i. 0), dev_refs = (\<lambda>d. 0)\<rparr>"

lemma demo_env_simps [simp]:
  "k_alloc demo_env n" "k_random demo_env n = of_nat (n + 7)" "k_junk demo_env n i = 0"
  "k_rb_insert_color demo_env e t = t" "k_sort demo_env cmp xs = xs"
  "k_dev demo_env d = Some [2, 0, 0, 0, 0, 1]" "k_netdevs demo_env = [''lo'', ''eth0'', ''wlan0'']"
  by (simp_all add: demo_env_def)

lemma demo_env_laws [simp]:
  "rb_keeps_order demo_env" "sort_by_address demo_env"
proof -
  show "rb_keeps_order demo_env" by (simp add: rb_keeps_order_def)
  have "\<exists>p. bij_betw p {..<n} {..<n} \<and> (\<forall>xs. length xs = n \<longrightarrow> xs = map (\<lambda>i. xs ! p i) [0..<n])"
    for n :: nat by (rule exI [of _ id]) (auto simp: map_nth)
  then show "sort_by_address demo_env" unfolding sort_by_address_def demo_env_simps by blast
qed

end
