(* ===== verification/Ring.thy ===== *)
theory Ring
  imports VRR_Types
begin

text \<open>
  The identifier ring of \<open>vrr_data.c\<close>: \<open>get_diff\<close>, the distance of two identifiers around the
  32-bit ring, and the two directional differences a virtual-set entry stores. The locale
  \<open>ring_metric\<close> is the contract of a distance function; it is interpreted on \<open>get_diff\<close>.
\<close>

definition get_diff :: "u32 \<Rightarrow> u32 \<Rightarrow> u32" where
  "get_diff x y = (let i = x - y; j = y - x in if i < j then i else j)"

text \<open>The expressions of \<open>insert_vset_node\<close> and \<open>vset_should_add\<close>, for this node \<open>me\<close>.\<close>

definition left_of :: "u32 \<Rightarrow> u32 \<Rightarrow> u32" where
  "left_of me node = (if node > me then UINT_MAX - get_diff node me else get_diff node me)"

definition right_of :: "u32 \<Rightarrow> u32 \<Rightarrow> u32" where
  "right_of me node = (if node < me then UINT_MAX - get_diff node me else get_diff node me)"

section \<open>A distance\<close>

locale ring_metric =
  fixes dist :: "'a \<Rightarrow> 'a \<Rightarrow> nat"
  assumes dist_zero: "dist x y = 0 \<longleftrightarrow> x = y"
    and dist_sym: "dist x y = dist y x"
    and dist_triangle: "dist x z \<le> dist x y + dist y z"
begin

lemma dist_self [simp]: "dist x x = 0"
  by (simp add: dist_zero)

text \<open>Two nodes within \<open>r\<close> of a third are within twice that of each other.\<close>

lemma dist_ball: "dist x c \<le> r \<Longrightarrow> dist y c \<le> r \<Longrightarrow> dist x y \<le> 2 * r"
  using dist_triangle [of x y c] dist_sym [of y c] by linarith

end

lemma unat_sum_wrap:
  fixes a b :: u32
  shows "unat (a + b) = unat a + unat b \<or> unat (a + b) + 2 ^ 32 = unat a + unat b"
proof (cases "unat a + unat b < 2 ^ 32")
  case True
  then show ?thesis by (simp add: unat_word_ariths)
next
  case False
  have "unat a < 2 ^ 32" "unat b < 2 ^ 32"
    using unsigned_less [of a] unsigned_less [of b] by simp_all
  with False show ?thesis by (simp add: unat_word_ariths le_mod_geq)
qed

lemma unat_diff_add:
  fixes x y :: u32
  assumes "x \<noteq> y"
  shows "unat (x - y) + unat (y - x) = 2 ^ 32"
proof -
  have "unat (x - y) \<noteq> 0" using assms by (simp add: unsigned_eq_0_iff)
  then show ?thesis using unat_sum_wrap [of "x - y" "y - x"] by simp
qed

lemma unat_get_diff: "unat (get_diff x y) = min (unat (x - y)) (unat (y - x))"
  by (auto simp: get_diff_def Let_def word_less_nat_alt min_def)

lemma get_diff_sym: "get_diff x y = get_diff y x"
  by (metis unat_get_diff min.commute unsigned_word_eqI)

lemma get_diff_zero_iff: "get_diff x y = 0 \<longleftrightarrow> x = y"
  using unat_get_diff [of x y] by (auto simp: get_diff_def Let_def split: if_splits)

lemma unat_get_diff_le: "unat (get_diff x y) \<le> 2 ^ 31"
proof (cases "x = y")
  case False
  then show ?thesis using unat_diff_add [of x y] by (simp add: unat_get_diff min_def)
qed (simp add: get_diff_def)

lemma get_diff_le: "get_diff x y \<le> 2 ^ 31"
  using unat_get_diff_le [of x y] by (simp add: word_le_nat_alt)

lemma get_diff_triangle: "unat (get_diff x z) \<le> unat (get_diff x y) + unat (get_diff y z)"
proof -
  have xz: "x - z = (x - y) + (y - z)" and zx: "z - x = (z - y) + (y - x)" by simp_all
  consider "x = y" | "y = z" | "x = z" | "x \<noteq> y" "y \<noteq> z" "x \<noteq> z" by blast
  then show ?thesis
  proof cases
    case 4
    show ?thesis
      using unat_sum_wrap [of "x - y" "y - z"] unat_sum_wrap [of "z - y" "y - x"]
        unat_diff_add [OF 4(1)] unat_diff_add [OF 4(2)] unat_diff_add [OF 4(3)]
      unfolding unat_get_diff xz [symmetric] zx [symmetric] by linarith
  qed (simp_all add: get_diff_zero_iff [THEN iffD2] get_diff_def)
qed

interpretation ring: ring_metric "\<lambda>x y. unat (get_diff x y)"
proof unfold_locales
  fix x y z :: u32
  show "unat (get_diff x y) = 0 \<longleftrightarrow> x = y" by (simp add: unsigned_eq_0_iff get_diff_zero_iff)
  show "unat (get_diff x y) = unat (get_diff y x)" by (simp add: get_diff_sym)
  show "unat (get_diff x z) \<le> unat (get_diff x y) + unat (get_diff y z)" by (rule get_diff_triangle)
qed

section \<open>The two directions\<close>

text \<open>
  The counter-clockwise distance from \<open>me\<close> to \<open>node\<close> is \<open>me - node\<close> and the clockwise one
  \<open>node - me\<close>, both modulo \<open>2 ^ 32\<close>. The stored differences agree with them (one of the two up to the
  difference between \<open>UINT_MAX\<close> and \<open>2 ^ 32\<close>) for a node that is less than half the ring away
  in the direction its number suggests.
\<close>

lemma get_diff_below:
  assumes "node \<le> me" "unat me - unat node \<le> 2 ^ 31"
  shows "get_diff node me = me - node"
proof (cases "node = me")
  case True
  then show ?thesis by (simp add: get_diff_def)
next
  case False
  have "unat (me - node) = unat me - unat node"
    using assms(1) by (simp add: unat_sub)
  then have "unat (get_diff node me) = unat (me - node)"
    using unat_diff_add [OF False] assms(2) by (simp add: unat_get_diff min_def)
  then show ?thesis by (rule unsigned_word_eqI)
qed

lemma left_of_below:
  "node \<le> me \<Longrightarrow> unat me - unat node \<le> 2 ^ 31 \<Longrightarrow> left_of me node = me - node"
  by (auto simp: left_of_def get_diff_below)

lemma right_of_above:
  "me \<le> node \<Longrightarrow> unat node - unat me \<le> 2 ^ 31 \<Longrightarrow> right_of me node = node - me"
  using get_diff_below [of me node] by (auto simp: right_of_def get_diff_sym [of node me])

section \<open>Properties\<close>



text \<open>
  C39: the stored directional differences of a virtual neighbour. For a node on the side its
  number suggests (less than half the ring below or above) the difference on that side is the
  true distance in that direction. For a node above \<open>me\<close> across the wrap-around of the ring,
  the code records the counter-clockwise distance as the clockwise one.
\<close>

theorem ring_sides:
  "(node \<le> me \<and> unat me - unat node \<le> 2 ^ 31 \<longrightarrow> left_of me node = me - node)
   \<and> (me \<le> node \<and> unat node - unat me \<le> 2 ^ 31 \<longrightarrow> right_of me node = node - me)
   \<and> (me < node \<and> 2 ^ 31 < unat node - unat me \<longrightarrow>
        right_of me node = me - node \<and> left_of me node = UINT_MAX - (me - node))"
proof (intro conjI impI)
  assume a: "me < node \<and> 2 ^ 31 < unat node - unat me"
  then have ne: "me \<noteq> node" and "unat (node - me) = unat node - unat me"
    by (auto simp: unat_sub less_imp_le)
  then have "unat (get_diff node me) = unat (me - node)"
    using unat_diff_add [OF ne] a by (simp add: unat_get_diff min_def)
  then have "get_diff node me = me - node" by (rule unsigned_word_eqI)
  with a show "right_of me node = me - node" and "left_of me node = UINT_MAX - (me - node)"
    by (auto simp: right_of_def left_of_def)
qed (auto intro: left_of_below right_of_above)

theorem ring_sides_witness:
  "left_of 100 90 = 10 \<and> right_of 100 130 = 30 \<and> right_of 1 0xFFFFFFFF = 2"
  using ring_sides [of 90 100] ring_sides [of 100 130] ring_sides [of 130 100] ring_sides [of "0xFFFFFFFF" 1]
  by simp

end
