(* ===== verification/Route_Table.thy ===== *)
theory Route_Table
  imports Kernel Ring
begin

text \<open>
  The routing table of \<open>vrr_data.c\<close>: a red-black tree of endpoints, each with the list of routes
  that end there. The operations are those of the source, lock calls included; the tree walk of a
  \<open>while (node)\<close> loop is recursion on the tree. The contract of the table is the locale
  \<open>endpoint_index\<close>: what the routes of an endpoint are after linking a node, adding and
  removing a route, whatever rebalancing happens in between.
\<close>

record rt_globals = kern +
  ME :: u32
  rt_root :: "rt_node tree"

section \<open>Searching\<close>

fun route_max :: "rt_entry list \<Rightarrow> rt_entry option \<Rightarrow> u32 \<Rightarrow> rt_entry option" where
  "route_max [] max_entry max_path = max_entry"
| "route_max (tmp # rest) max_entry max_path =
     (if path_id tmp > max_path then route_max rest (Some tmp) (path_id tmp)
      else route_max rest max_entry max_path)"

definition route_list_search :: "u32 \<Rightarrow> rt_entry list \<Rightarrow> u32 \<Rightarrow> u32" where
  "route_list_search me r_list e =
     (case route_max r_list None 0 of
        None \<Rightarrow> 0
      | Some m \<Rightarrow>
          if get_diff e (ea m) < get_diff e (eb m)
          then (if ea m \<noteq> me then na m else nb m)
          else (if eb m \<noteq> me then nb m else na m))"

fun rt_search :: "u32 \<Rightarrow> rt_node tree \<Rightarrow> u32 \<Rightarrow> u32" where
  "rt_search me \<langle>\<rangle> e = 0"
| "rt_search me \<langle>l, this, r\<rangle> e =
     (if e < endpoint this then rt_search me l e
      else if e > endpoint this then rt_search me r e
      else if endpoint this = me then 0
      else route_list_search me (routes this) e)"

text \<open>The loop of \<open>rt_search_exclude\<close>; \<open>this\<close> is the node visited before, if any.\<close>

fun rt_search_exclude :: "u32 \<Rightarrow> rt_node option \<Rightarrow> rt_node tree \<Rightarrow> u32 \<Rightarrow> u32 \<Rightarrow> u32" where
  "rt_search_exclude me this \<langle>\<rangle> e src = 0"
| "rt_search_exclude me prev \<langle>l, this, r\<rangle> e src =
     (if endpoint this = src \<and> prev \<noteq> None then route_list_search me (routes (the prev)) e
      else if e < endpoint this then rt_search_exclude me (Some this) l e src
      else if e > endpoint this then rt_search_exclude me (Some this) r e src
      else if endpoint this = me then 0
      else route_list_search me (routes this) e)"

definition rt_get_next :: "u32 \<Rightarrow> 'z rt_globals_scheme \<Rightarrow> (u32 \<times> 'z rt_globals_scheme) option" where
  "rt_get_next dest s = do {
     s \<leftarrow> spin_lock vrr_rt_lock s;
     let nxt = rt_search (ME s) (rt_root s) dest;
     s \<leftarrow> spin_unlock vrr_rt_lock s;
     Some (nxt, s)
   }"

definition rt_get_next_exclude ::
  "u32 \<Rightarrow> u32 \<Rightarrow> 'z rt_globals_scheme \<Rightarrow> (u32 \<times> 'z rt_globals_scheme) option" where
  "rt_get_next_exclude dest src s = do {
     s \<leftarrow> spin_lock vrr_rt_lock s;
     let nxt = rt_search_exclude (ME s) None (rt_root s) dest src;
     s \<leftarrow> spin_unlock vrr_rt_lock s;
     Some (nxt, s)
   }"

section \<open>Adding\<close>

text \<open>
  The loop of \<open>rt_find_insert_node\<close> (does it reach a node for the endpoint?), \<open>rb_link_node\<close> at the
  empty place where the loop stopped, and \<open>list_add\<close> on the list of the node found. The node
  pointer the function returns is the node of that endpoint in the tree.
\<close>

fun rt_reaches :: "rt_node tree \<Rightarrow> u32 \<Rightarrow> bool" where
  "rt_reaches \<langle>\<rangle> e = False"
| "rt_reaches \<langle>l, this, r\<rangle> e =
     (if e < endpoint this then rt_reaches l e
      else if e > endpoint this then rt_reaches r e else True)"

fun rb_link_node :: "rt_node tree \<Rightarrow> u32 \<Rightarrow> rt_node tree" where
  "rb_link_node \<langle>\<rangle> e = \<langle>\<langle>\<rangle>, \<lparr>endpoint = e, routes = []\<rparr>, \<langle>\<rangle>\<rangle>"
| "rb_link_node \<langle>l, this, r\<rangle> e =
     (if e < endpoint this then \<langle>rb_link_node l e, this, r\<rangle>
      else if e > endpoint this then \<langle>l, this, rb_link_node r e\<rangle> else \<langle>l, this, r\<rangle>)"

fun rt_list_add :: "rt_node tree \<Rightarrow> u32 \<Rightarrow> rt_entry \<Rightarrow> rt_node tree" where
  "rt_list_add \<langle>\<rangle> e rt = \<langle>\<rangle>"
| "rt_list_add \<langle>l, this, r\<rangle> e rt =
     (if e < endpoint this then \<langle>rt_list_add l e rt, this, r\<rangle>
      else if e > endpoint this then \<langle>l, this, rt_list_add r e rt\<rangle>
      else \<langle>l, this\<lparr>routes := rt # routes this\<rparr>, r\<rangle>)"

definition rt_find_insert_node ::
  "kenv \<Rightarrow> u32 \<Rightarrow> 'z rt_globals_scheme \<Rightarrow> bool \<times> 'z rt_globals_scheme" where
  "rt_find_insert_node K e s =
     (if rt_reaches (rt_root s) e then (True, s)
      else let (ok, s) = kmalloc K 72 s in
        if \<not> ok then (False, s)
        else (True, s\<lparr>rt_root := k_rb_insert_color K e (rb_link_node (rt_root s) e)\<rparr>))"

text \<open>
  One of the two \<open>if\<close> blocks of \<open>rt_add_route\<close>: the route under endpoint \<open>e\<close>. It is skipped when \<open>e\<close>
  is 0 or when the block before went to \<open>out_err\<close> (\<open>ok\<close> is \<open>False\<close>).
\<close>

definition rt_add_block ::
  "kenv \<Rightarrow> u32 \<Rightarrow> rt_entry \<Rightarrow> bool \<Rightarrow> 'z rt_globals_scheme \<Rightarrow> bool \<times> 'z rt_globals_scheme" where
  "rt_add_block K e route ok s =
     (if \<not> ok \<or> e = 0 then (ok, s)
      else let (ok, s) = rt_find_insert_node K e s in
        if \<not> ok then (False, s)
        else let (ok, s) = kmalloc K 40 s in
          if \<not> ok then (False, s)
          else (True, s\<lparr>rt_root := rt_list_add (rt_root s) e route\<rparr>))"

definition rt_add_route ::
  "kenv \<Rightarrow> u32 \<Rightarrow> u32 \<Rightarrow> u32 \<Rightarrow> u32 \<Rightarrow> u32 \<Rightarrow> 'z rt_globals_scheme \<Rightarrow> (int \<times> 'z rt_globals_scheme) option" where
  "rt_add_route K ea' eb' na' nb' path_id' s = do {
     s \<leftarrow> spin_lock vrr_rt_lock s;
     let route = \<lparr>ea = ea', eb = eb', na = na', nb = nb', path_id = path_id'\<rparr>;
     let (ok, s) = rt_add_block K ea' route True s;
     let (ok, s) = rt_add_block K eb' route ok s;
     s \<leftarrow> spin_unlock vrr_rt_lock s;
     Some (if ok then 1 else 0, s)
   }"

section \<open>Removing\<close>

definition route_list_search_rmv ::
  "rt_entry list \<Rightarrow> u32 \<Rightarrow> 'z kern_scheme \<Rightarrow> ((rt_entry option \<times> rt_entry list) \<times> 'z kern_scheme) option" where
  "route_list_search_rmv r_list path s = do {
     s \<leftarrow> spin_lock vrr_rt_lock s;
     let res = (first_match (\<lambda>tmp. path_id tmp = path) r_list,
                del_first (\<lambda>tmp. path_id tmp = path) r_list);
     s \<leftarrow> spin_unlock vrr_rt_lock s;
     Some (res, s)
   }"

fun rt_search_rmv ::
  "rt_node tree \<Rightarrow> u32 \<Rightarrow> u32 \<Rightarrow> 'z kern_scheme \<Rightarrow> ((rt_entry option \<times> rt_node tree) \<times> 'z kern_scheme) option" where
  "rt_search_rmv \<langle>\<rangle> e path s = Some ((None, \<langle>\<rangle>), s)"
| "rt_search_rmv \<langle>l, this, r\<rangle> e path s =
     (if e < endpoint this then do {
        ((x, l'), s) \<leftarrow> rt_search_rmv l e path s; Some ((x, \<langle>l', this, r\<rangle>), s) }
      else if e > endpoint this then do {
        ((x, r'), s) \<leftarrow> rt_search_rmv r e path s; Some ((x, \<langle>l, this, r'\<rangle>), s) }
      else do {
        ((x, rs), s) \<leftarrow> route_list_search_rmv (routes this) path s;
        Some ((x, \<langle>l, this\<lparr>routes := rs\<rparr>, r\<rangle>), s) })"

definition rt_remove_route ::
  "u32 \<Rightarrow> u32 \<Rightarrow> 'z rt_globals_scheme \<Rightarrow> (rt_entry option \<times> 'z rt_globals_scheme) option" where
  "rt_remove_route e path s = do {
     ((x, t), s) \<leftarrow> rt_search_rmv (rt_root s) e path s;
     Some (x, s\<lparr>rt_root := t\<rparr>)
   }"

definition rt_remove_nexts :: "u32 \<Rightarrow> int" where
  "rt_remove_nexts route_hop_to_remove = 0"

section \<open>The table as a map\<close>

text \<open>
  The abstract table: the routes listed under an endpoint. \<open>rt_del\<close> is what removal does to
  the tree, without the lock calls. A tree is ordered when its endpoints strictly increase in order.
\<close>

fun rt_routes :: "rt_node tree \<Rightarrow> u32 \<Rightarrow> rt_entry list option" where
  "rt_routes \<langle>\<rangle> e = None"
| "rt_routes \<langle>l, this, r\<rangle> e =
     (if e < endpoint this then rt_routes l e
      else if e > endpoint this then rt_routes r e else Some (routes this))"

fun rt_del :: "rt_node tree \<Rightarrow> u32 \<Rightarrow> u32 \<Rightarrow> rt_node tree" where
  "rt_del \<langle>\<rangle> e path = \<langle>\<rangle>"
| "rt_del \<langle>l, this, r\<rangle> e path =
     (if e < endpoint this then \<langle>rt_del l e path, this, r\<rangle>
      else if e > endpoint this then \<langle>l, this, rt_del r e path\<rangle>
      else \<langle>l, this\<lparr>routes := del_first (\<lambda>tmp. path_id tmp = path) (routes this)\<rparr>, r\<rangle>)"

definition rt_ordered :: "rt_node tree \<Rightarrow> bool" where
  "rt_ordered t \<longleftrightarrow> sorted_wrt (<) (map endpoint (inorder t))"

definition table_add :: "u32 \<Rightarrow> rt_entry \<Rightarrow> (u32 \<Rightarrow> rt_entry list option) \<Rightarrow> u32 \<Rightarrow> rt_entry list option" where
  "table_add e r T = T(e \<mapsto> r # (case T e of None \<Rightarrow> [] | Some rs \<Rightarrow> rs))"

text \<open>Every route is listed under one of its own endpoints, and no endpoint is 0.\<close>

definition rt_entries_ok :: "rt_node tree \<Rightarrow> bool" where
  "rt_entries_ok t \<longleftrightarrow>
     (\<forall>n \<in> set_tree t. endpoint n \<noteq> 0 \<and> (\<forall>r \<in> set (routes n). ea r = endpoint n \<or> eb r = endpoint n))"

definition rt_inv :: "'z rt_globals_scheme \<Rightarrow> bool" where
  "rt_inv s \<longleftrightarrow> rt_ordered (rt_root s) \<and> rt_entries_ok (rt_root s)"

section \<open>The contract of the endpoint index\<close>

locale endpoint_index =
  fixes seq :: "'t \<Rightarrow> rt_node list"
    and invar :: "'t \<Rightarrow> bool"
    and lookup :: "'t \<Rightarrow> u32 \<Rightarrow> rt_entry list option"
    and link :: "'t \<Rightarrow> u32 \<Rightarrow> 't"
    and add :: "'t \<Rightarrow> u32 \<Rightarrow> rt_entry \<Rightarrow> 't"
    and del :: "'t \<Rightarrow> u32 \<Rightarrow> u32 \<Rightarrow> 't"
  assumes invar_seq: "seq u = seq t \<Longrightarrow> invar u = invar t"
    and lookup_seq: "invar t \<Longrightarrow> seq u = seq t \<Longrightarrow> lookup u = lookup t"
    and invar_link: "invar t \<Longrightarrow> invar (link t e)"
    and lookup_link: "invar t \<Longrightarrow> lookup t e = None \<Longrightarrow> lookup (link t e) = (lookup t)(e \<mapsto> [])"
    and invar_add: "invar t \<Longrightarrow> invar (add t e r)"
    and lookup_add: "invar t \<Longrightarrow> lookup t e = Some rs \<Longrightarrow> lookup (add t e r) = (lookup t)(e \<mapsto> r # rs)"
    and invar_del: "invar t \<Longrightarrow> invar (del t e p)"
    and lookup_del: "invar t \<Longrightarrow> lookup (del t e p) =
      (case lookup t e of None \<Rightarrow> lookup t
       | Some rs \<Rightarrow> (lookup t)(e \<mapsto> del_first (\<lambda>tmp. path_id tmp = p) rs))"
begin

text \<open>Linking the node when it is missing, rebalancing, then adding the route.\<close>

lemma link_add:
  assumes "invar t" "lookup t e = None" "seq u = seq (link t e)"
  shows "invar (add u e r)" "lookup (add u e r) = table_add e r (lookup t)"
proof -
  have iu: "invar u" using invar_seq [OF assms(3)] invar_link [OF assms(1)] by simp
  have "lookup u = (lookup t)(e \<mapsto> [])"
    using lookup_seq [OF invar_link [OF assms(1)] assms(3)] lookup_link [OF assms(1,2)] by simp
  then show "lookup (add u e r) = table_add e r (lookup t)"
    using lookup_add [OF iu, of e "[]"] assms(2) by (simp add: table_add_def)
  show "invar (add u e r)" using iu by (rule invar_add)
qed

lemma add_present:
  assumes "invar t" "lookup t e \<noteq> None"
  shows "lookup (add t e r) = table_add e r (lookup t)"
  using assms lookup_add by (auto simp: table_add_def)

end

lemma ordered_Node:
  "rt_ordered \<langle>l, x, r\<rangle> \<longleftrightarrow> rt_ordered l \<and> rt_ordered r
     \<and> (\<forall>n \<in> set_tree l. endpoint n < endpoint x) \<and> (\<forall>n \<in> set_tree r. endpoint x < endpoint n)"
  by (auto simp: rt_ordered_def sorted_wrt_append dest: less_trans)

lemma ordered_Leaf [simp]: "rt_ordered \<langle>\<rangle>"
  by (simp add: rt_ordered_def)

lemma rt_routes_set: "rt_routes t e = Some rs \<Longrightarrow> \<exists>n \<in> set_tree t. endpoint n = e \<and> routes n = rs"
  by (induction t) (auto split: if_splits)

lemma rt_routes_inorder:
  "rt_ordered t \<Longrightarrow> rt_routes t e = map_option routes (first_match (\<lambda>n. endpoint n = e) (inorder t))"
proof (induction t)
  case (Node l x r)
  have app: "first_match P (xs @ ys) = (case first_match P xs of None \<Rightarrow> first_match P ys | Some y \<Rightarrow> Some y)"
    for P :: "rt_node \<Rightarrow> bool" and xs ys by (induction xs) auto
  have l: "e \<ge> endpoint x \<Longrightarrow> first_match (\<lambda>n. endpoint n = e) (inorder l) = None"
    using Node.prems by (auto simp: ordered_Node first_match_None_iff)
  have r: "e \<le> endpoint x \<Longrightarrow> first_match (\<lambda>n. endpoint n = e) (inorder r) = None"
    using Node.prems by (auto simp: ordered_Node first_match_None_iff)
  show ?case
    using Node l r by (auto simp: ordered_Node app split: option.split)
qed simp

lemma set_tree_link: "n \<in> set_tree (rb_link_node t e) \<Longrightarrow> n \<in> set_tree t \<or> n = \<lparr>endpoint = e, routes = []\<rparr>"
  by (induction t) (auto split: if_splits)

lemma set_tree_add: "n \<in> set_tree (rt_list_add t e r) \<Longrightarrow>
    n \<in> set_tree t \<or> (\<exists>m \<in> set_tree t. endpoint m = e \<and> n = m\<lparr>routes := r # routes m\<rparr>)"
  by (induction t) (auto split: if_splits)

lemma set_tree_del: "n \<in> set_tree (rt_del t e p) \<Longrightarrow>
    n \<in> set_tree t \<or> (\<exists>m \<in> set_tree t. endpoint m = e \<and>
      n = m\<lparr>routes := del_first (\<lambda>tmp. path_id tmp = p) (routes m)\<rparr>)"
  by (induction t) (auto split: if_splits)

lemma ordered_link: "rt_ordered t \<Longrightarrow> rt_ordered (rb_link_node t e)"
  by (induction t) (auto simp: ordered_Node dest!: set_tree_link)

lemma ordered_list_add: "rt_ordered t \<Longrightarrow> rt_ordered (rt_list_add t e r)"
  by (induction t) (auto simp: ordered_Node dest!: set_tree_add)

lemma ordered_del: "rt_ordered t \<Longrightarrow> rt_ordered (rt_del t e p)"
  by (induction t) (auto simp: ordered_Node dest!: set_tree_del)

lemma routes_link:
  "rt_routes t e = None \<Longrightarrow> rt_routes (rb_link_node t e) x = (if x = e then Some [] else rt_routes t x)"
  by (induction t) (auto split: if_splits)

lemma routes_add:
  "rt_routes t e = Some rs \<Longrightarrow> rt_routes (rt_list_add t e r) x = (if x = e then Some (r # rs) else rt_routes t x)"
  by (induction t) (auto split: if_splits)

lemma routes_del:
  "rt_routes (rt_del t e p) x =
     (if x = e then map_option (del_first (\<lambda>tmp. path_id tmp = p)) (rt_routes t e) else rt_routes t x)"
  by (induction t) auto

interpretation rtab: endpoint_index inorder rt_ordered rt_routes rb_link_node rt_list_add rt_del
proof unfold_locales
  fix t u :: "rt_node tree" and e p r rs
  show "inorder u = inorder t \<Longrightarrow> rt_ordered u = rt_ordered t" by (simp add: rt_ordered_def)
  show "rt_routes u = rt_routes t" if "rt_ordered t" "inorder u = inorder t"
  proof -
    have "rt_ordered u" using that by (simp add: rt_ordered_def)
    then show ?thesis using that by (auto simp: fun_eq_iff rt_routes_inorder)
  qed
  show "rt_ordered t \<Longrightarrow> rt_ordered (rb_link_node t e)" by (rule ordered_link)
  show "rt_ordered t \<Longrightarrow> rt_routes t e = None \<Longrightarrow> rt_routes (rb_link_node t e) = (rt_routes t)(e \<mapsto> [])"
    by (auto simp: fun_eq_iff routes_link)
  show "rt_ordered t \<Longrightarrow> rt_ordered (rt_list_add t e r)" by (rule ordered_list_add)
  show "rt_ordered t \<Longrightarrow> rt_routes t e = Some rs \<Longrightarrow> rt_routes (rt_list_add t e r) = (rt_routes t)(e \<mapsto> r # rs)"
    by (auto simp: fun_eq_iff routes_add)
  show "rt_ordered t \<Longrightarrow> rt_ordered (rt_del t e p)" by (rule ordered_del)
  show "rt_ordered t \<Longrightarrow> rt_routes (rt_del t e p) = (case rt_routes t e of None \<Rightarrow> rt_routes t
       | Some rs \<Rightarrow> (rt_routes t)(e \<mapsto> del_first (\<lambda>tmp. path_id tmp = p) rs))"
    by (auto simp: fun_eq_iff routes_del split: option.split)
qed

section \<open>What the operations return\<close>

lemma rt_get_next_run [op_simps]:
  "\<not> held s vrr_rt_lock \<Longrightarrow> rt_get_next dest s = Some (rt_search (ME s) (rt_root s) dest, s)"
  by (simp add: rt_get_next_def spin_lock_def spin_unlock_def held_idem)

lemma rt_get_next_exclude_run [op_simps]:
  "\<not> held s vrr_rt_lock \<Longrightarrow>
     rt_get_next_exclude dest src s = Some (rt_search_exclude (ME s) None (rt_root s) dest src, s)"
  by (simp add: rt_get_next_exclude_def spin_lock_def spin_unlock_def held_idem)

lemma rt_search_rmv_run:
  "\<not> held s vrr_rt_lock \<Longrightarrow> rt_search_rmv t e path s =
     Some ((case rt_routes t e of None \<Rightarrow> None
            | Some rs \<Rightarrow> first_match (\<lambda>tmp. path_id tmp = path) rs, rt_del t e path), s)"
  by (induction t)
    (auto simp: route_list_search_rmv_def spin_lock_def spin_unlock_def held_idem)

lemma rt_remove_route_run [op_simps]:
  "\<not> held s vrr_rt_lock \<Longrightarrow> rt_remove_route e path s =
     Some (case rt_routes (rt_root s) e of None \<Rightarrow> None
           | Some rs \<Rightarrow> first_match (\<lambda>tmp. path_id tmp = path) rs,
           s\<lparr>rt_root := rt_del (rt_root s) e path\<rparr>)"
  by (simp add: rt_remove_route_def rt_search_rmv_run)

lemma rt_reaches_iff: "rt_reaches t e \<longleftrightarrow> rt_routes t e \<noteq> None"
  by (induction t) auto

lemma rt_search_routes:
  "rt_search me t e =
     (case rt_routes t e of None \<Rightarrow> 0
      | Some rs \<Rightarrow> if e = me then 0 else route_list_search me rs e)"
  by (induction t) auto

text \<open>
  Adding under one endpoint: the tree stays ordered, and the table gains the route unless an
  allocation failed. Every case of the block ends in one of two trees.
\<close>

lemma set_tree_rebalanced: "rb_keeps_order K \<Longrightarrow> set_tree (k_rb_insert_color K e u) = set_tree u"
  by (metis rb_keeps_order_def set_inorder)

lemma rt_insert_node_run:
  assumes "rb_keeps_order K" "rt_ordered (rt_root s)"
  obtains ok u i where "rt_find_insert_node K e s = (ok, s\<lparr>io := i, rt_root := u\<rparr>)" "rt_ordered u"
    "(\<forall>n. k_alloc K n) \<longrightarrow> ok"
    "ok \<longrightarrow> rt_routes (rt_list_add u e r) = table_add e r (rt_routes (rt_root s))"
    "set_tree u \<subseteq> insert \<lparr>endpoint = e, routes = []\<rparr> (set_tree (rt_root s))"
proof (cases "rt_reaches (rt_root s) e")
  case True
  then have "rt_find_insert_node K e s = (True, s\<lparr>io := io s, rt_root := rt_root s\<rparr>)"
    by (simp add: rt_find_insert_node_def)
  then show ?thesis
    by (rule that [of True "rt_root s" "io s"])
      (use rtab.add_present [OF assms(2)] True assms(2) in \<open>auto simp: rt_reaches_iff\<close>)
next
  case False
  then have none: "rt_routes (rt_root s) e = None" by (simp add: rt_reaches_iff)
  define i where "i = (io s)\<lparr>clock := Suc (clock (io s))\<rparr>"
  define u where "u = k_rb_insert_color K e (rb_link_node (rt_root s) e)"
  have seq: "inorder u = inorder (rb_link_node (rt_root s) e)"
    using assms(1) by (simp add: u_def rb_keeps_order_def)
  have ou: "rt_ordered u"
    using rtab.invar_seq [OF seq] ordered_link [OF assms(2)] by simp
  have st: "set_tree u \<subseteq> insert \<lparr>endpoint = e, routes = []\<rparr> (set_tree (rt_root s))"
    using set_tree_link by (auto simp: u_def set_tree_rebalanced [OF assms(1)])
  have "rt_find_insert_node K e s =
      (if k_alloc K (clock (io s)) then (True, s\<lparr>io := i, rt_root := u\<rparr>)
       else (False, s\<lparr>io := i, rt_root := rt_root s\<rparr>))"
    using False by (simp add: rt_find_insert_node_def kmalloc_def tick_def u_def i_def)
  then show ?thesis
    using that [of True u i] that [of False "rt_root s" i] rtab.link_add(2) [OF assms(2) none seq] ou st assms(2)
    by (cases "k_alloc K (clock (io s))") auto
qed

definition rt_good :: "rt_node tree \<Rightarrow> bool" where
  "rt_good t \<longleftrightarrow> rt_ordered t \<and> rt_entries_ok t"

lemma rt_inv_good: "rt_inv s \<longleftrightarrow> rt_good (rt_root s)"
  by (simp add: rt_inv_def rt_good_def)

lemma rt_good_list_add:
  assumes "rt_ordered u" "rt_entries_ok t" "e \<noteq> 0" "ea r = e \<or> eb r = e"
    "set_tree u \<subseteq> insert \<lparr>endpoint = e, routes = []\<rparr> (set_tree t)"
  shows "rt_good u" "rt_good (rt_list_add u e r)"
  using assms
  by (fastforce simp: rt_good_def rt_entries_ok_def ordered_list_add dest!: set_tree_add)+

lemma rt_add_block_run:
  assumes "rb_keeps_order K" "rt_good (rt_root s)" "ea r = e \<or> eb r = e"
  obtains ok' t i where "rt_add_block K e r ok s = (ok', s\<lparr>io := i, rt_root := t\<rparr>)" "rt_good t"
    "ok' \<longrightarrow> ok \<and> rt_routes t = (if e \<noteq> 0 then table_add e r (rt_routes (rt_root s)) else rt_routes (rt_root s))"
    "(\<forall>n. k_alloc K n) \<and> ok \<longrightarrow> ok'"
proof (cases "\<not> ok \<or> e = 0")
  case True
  then have "rt_add_block K e r ok s = (ok, s\<lparr>io := io s, rt_root := rt_root s\<rparr>)"
    by (simp add: rt_add_block_def)
  then show ?thesis
    by (rule that [of ok "rt_root s" "io s"]) (use True assms(2) in auto)
next
  case False
  have g: "rt_ordered (rt_root s)" "rt_entries_ok (rt_root s)"
    using assms(2) by (simp_all add: rt_good_def)
  obtain ok1 u i where 1: "rt_find_insert_node K e s = (ok1, s\<lparr>io := i, rt_root := u\<rparr>)" "rt_ordered u"
      "(\<forall>n. k_alloc K n) \<longrightarrow> ok1" "ok1 \<longrightarrow> rt_routes (rt_list_add u e r) = table_add e r (rt_routes (rt_root s))"
      "set_tree u \<subseteq> insert \<lparr>endpoint = e, routes = []\<rparr> (set_tree (rt_root s))"
    using rt_insert_node_run [OF assms(1) g(1), of e r] by blast
  have "rt_good u" "rt_good (rt_list_add u e r)"
    using rt_good_list_add [OF 1(2) g(2) _ assms(3) 1(5)] False by auto
  moreover have "rt_add_block K e r ok s =
      (if \<not> ok1 then (False, s\<lparr>io := i, rt_root := u\<rparr>)
       else if k_alloc K (clock i) then (True, s\<lparr>io := i\<lparr>clock := Suc (clock i)\<rparr>, rt_root := rt_list_add u e r\<rparr>)
       else (False, s\<lparr>io := i\<lparr>clock := Suc (clock i)\<rparr>, rt_root := u\<rparr>))"
    using False 1(1) by (simp add: rt_add_block_def kmalloc_def tick_def)
  ultimately show ?thesis
    using that [of False u i] that [of False u "i\<lparr>clock := Suc (clock i)\<rparr>"]
      that [of True "rt_list_add u e r" "i\<lparr>clock := Suc (clock i)\<rparr>"] 1(3,4) False
    by (cases ok1; cases "k_alloc K (clock i)") auto
qed

text \<open>The abstract effect of \<open>rt_add_route\<close>: the route is put under each endpoint that is not 0.\<close>

definition route_added :: "rt_entry \<Rightarrow> (u32 \<Rightarrow> rt_entry list option) \<Rightarrow> u32 \<Rightarrow> rt_entry list option" where
  "route_added r T =
     (let T = (if ea r \<noteq> 0 then table_add (ea r) r T else T) in
        if eb r \<noteq> 0 then table_add (eb r) r T else T)"

lemma rt_add_route_run:
  assumes "rb_keeps_order K" "rt_inv s" "\<not> held s vrr_rt_lock"
  obtains ret t i where "rt_add_route K e f n m p s = Some (ret, s\<lparr>io := i, rt_root := t\<rparr>)" "rt_good t"
    "ret = 0 \<or> ret = 1" "(\<forall>n. k_alloc K n) \<longrightarrow> ret = 1"
    "ret = 1 \<longrightarrow> rt_routes t =
       route_added \<lparr>ea = e, eb = f, na = n, nb = m, path_id = p\<rparr> (rt_routes (rt_root s))"
proof -
  define r where "r = \<lparr>ea = e, eb = f, na = n, nb = m, path_id = p\<rparr>"
  define s0 where "s0 = s\<lparr>held := (held s)(vrr_rt_lock := True)\<rparr>"
  have g: "rt_good (rt_root s0)" and [simp]: "rt_root s0 = rt_root s" "ea r = e" "eb r = f"
    using assms(2) by (simp_all add: s0_def rt_inv_good r_def)
  obtain ok1 t1 i1 where 1: "rt_add_block K e r True s0 = (ok1, s0\<lparr>io := i1, rt_root := t1\<rparr>)" "rt_good t1"
      "ok1 \<longrightarrow> rt_routes t1 = (if e \<noteq> 0 then table_add e r (rt_routes (rt_root s0)) else rt_routes (rt_root s0))"
      "(\<forall>n. k_alloc K n) \<longrightarrow> ok1"
    by (rule rt_add_block_run [OF assms(1) g, of r e True]) auto
  define s1 where "s1 = s0\<lparr>io := i1, rt_root := t1\<rparr>"
  have g1: "rt_good (rt_root s1)" using 1(2) by (simp add: s1_def)
  obtain ok2 t2 i2 where 2: "rt_add_block K f r ok1 s1 = (ok2, s1\<lparr>io := i2, rt_root := t2\<rparr>)" "rt_good t2"
      "ok2 \<longrightarrow> ok1 \<and> rt_routes t2 = (if f \<noteq> 0 then table_add f r (rt_routes (rt_root s1)) else rt_routes (rt_root s1))"
      "(\<forall>n. k_alloc K n) \<and> ok1 \<longrightarrow> ok2"
    by (rule rt_add_block_run [OF assms(1) g1, of r f ok1], simp) (rule that)
  have "rt_add_route K e f n m p s = Some (if ok2 then 1 else 0, s\<lparr>io := i2, rt_root := t2\<rparr>)"
    using 1(1) 2(1) assms(3)
    by (simp add: rt_add_route_def spin_lock_def spin_unlock_def r_def [symmetric] s0_def s1_def fun_upd_idem)
  then show ?thesis
    by (rule that) (use 1 2 in \<open>auto simp: route_added_def Let_def r_def [symmetric] s1_def\<close>)
qed

section \<open>The route a search picks\<close>

lemma route_max_cases:
  "route_max rs m p = Some r \<Longrightarrow>
     (r \<in> set rs \<and> p < path_id r \<and> (\<forall>x \<in> set rs. path_id x \<le> path_id r))
     \<or> (m = Some r \<and> (\<forall>x \<in> set rs. path_id x \<le> p))"
  by (induction rs arbitrary: m p) (fastforce split: if_splits)+

lemma route_max_keep: "(\<forall>x \<in> set rs. path_id x \<le> p) \<Longrightarrow> route_max rs m p = m"
  by (induction rs) auto

lemma route_max_newest:
  "path_id r \<noteq> 0 \<Longrightarrow> (\<forall>x \<in> set rs. path_id x \<le> path_id r) \<Longrightarrow> route_max (r # rs) None 0 = Some r"
  by (simp add: word_gt_0 route_max_keep)

lemma route_list_search_newest:
  assumes "path_id r \<noteq> 0" "\<forall>x \<in> set rs. path_id x \<le> path_id r" "e \<noteq> me" "ea r \<noteq> eb r"
    "ea r = e \<or> eb r = e"
  shows "route_list_search me (r # rs) e = (if ea r = e then na r else nb r)"
  using assms unfolding route_list_search_def route_max_newest [OF assms(1,2)]
  by (auto simp: get_diff_zero_iff [THEN iffD2] word_gt_0 get_diff_zero_iff)

text \<open>The hop a search returns is on the side of the destination of a route that ends there.\<close>

lemma route_list_search_sound:
  assumes "route_list_search me rs e = h" "h \<noteq> 0" "e \<noteq> me" "\<forall>r \<in> set rs. ea r = e \<or> eb r = e"
  obtains r where "r \<in> set rs" "path_id r \<noteq> 0" "\<forall>x \<in> set rs. path_id x \<le> path_id r"
    "(ea r = e \<and> h = na r) \<or> (eb r = e \<and> h = nb r)"
proof (cases "route_max rs None 0")
  case None
  then show ?thesis using assms by (simp add: route_list_search_def)
next
  case (Some r)
  then have r: "r \<in> set rs" "0 < path_id r" "\<forall>x \<in> set rs. path_id x \<le> path_id r"
    using route_max_cases [OF Some] by auto
  have "ea r = e \<or> eb r = e" using assms(4) r(1) by blast
  then show ?thesis
    using that [of r] r assms Some
    by (auto simp: route_list_search_def get_diff_zero_iff [THEN iffD2] word_gt_0 get_diff_zero_iff split: if_splits)
qed

lemma rt_routes_ok:
  "rt_entries_ok t \<Longrightarrow> rt_routes t e = Some rs \<Longrightarrow> e \<noteq> 0 \<and> (\<forall>r \<in> set rs. ea r = e \<or> eb r = e)"
  by (fastforce simp: rt_entries_ok_def dest: rt_routes_set)

section \<open>A small table\<close>

text \<open>Node 5 with an empty table, and with one route from node 1 to node 9 over itself.\<close>

definition demo_rt :: rt_globals where
  "demo_rt = \<lparr>io = idle_io, held = (\<lambda>l. False), ME = 5, rt_root = \<langle>\<rangle>\<rparr>"

definition demo_rt1 :: rt_globals where
  "demo_rt1 = demo_rt\<lparr>rt_root := \<langle>\<langle>\<rangle>, \<lparr>endpoint = 9, routes = [\<lparr>ea = 1, eb = 9, na = 1, nb = 7, path_id = 3\<rparr>]\<rparr>, \<langle>\<rangle>\<rangle>\<rparr>"

lemma demo_rt_inv [simp]: "rt_inv demo_rt" "rt_inv demo_rt1" "\<not> held demo_rt l" "\<not> held demo_rt1 l"
  by (simp_all add: demo_rt_def demo_rt1_def rt_inv_def rt_entries_ok_def rt_ordered_def)

lemma demo_rt_sel: "ME demo_rt = 5" "rt_root demo_rt = \<langle>\<rangle>"
  by (simp_all add: demo_rt_def)

section \<open>Properties\<close>

text \<open>
  C8: after \<open>rt_add_route\<close> succeeds with a path identifier that is not 0 and not below those already
  listed for the destination, \<open>rt_get_next\<close> routes to each endpoint of the path (other than this
  node) over the hop the route gives for that side. With memory available the call does succeed.
\<close>

theorem rt_add_then_next:
  assumes "rb_keeps_order K" "rt_inv s" "\<not> held s vrr_rt_lock" "\<forall>n. k_alloc K n"
    and "e \<noteq> 0" "f \<noteq> 0" "e \<noteq> f" "p \<noteq> 0"
    and "d \<in> {e, f}" "d \<noteq> ME s"
    and newest: "\<forall>rs. rt_routes (rt_root s) d = Some rs \<longrightarrow> (\<forall>x \<in> set rs. path_id x \<le> p)"
  shows "\<exists>s'. rt_add_route K e f n m p s = Some (1, s') \<and> rt_inv s'
     \<and> rt_get_next d s' = Some (if d = e then n else m, s')"
proof -
  define r where "r = \<lparr>ea = e, eb = f, na = n, nb = m, path_id = p\<rparr>"
  obtain t i where run: "rt_add_route K e f n m p s = Some (1, s\<lparr>io := i, rt_root := t\<rparr>)" "rt_good t"
      "rt_routes t = route_added r (rt_routes (rt_root s))"
    by (rule rt_add_route_run [OF assms(1,2,3), of e f n m p]) (use assms(4) in \<open>auto simp: r_def\<close>)
  define old where "old = (case rt_routes (rt_root s) d of None \<Rightarrow> [] | Some rs \<Rightarrow> rs)"
  have "rt_routes t d = Some (r # old)"
    using run(3) assms(5,6,7,9) by (auto simp: route_added_def table_add_def r_def old_def)
  moreover have "\<forall>x \<in> set old. path_id x \<le> path_id r"
    using newest by (cases "rt_routes (rt_root s) d") (auto simp: old_def r_def)
  ultimately have "rt_search (ME s) t d = (if d = e then n else m)"
    using route_list_search_newest [of r old d "ME s"] assms(7-10)
    by (auto simp: rt_search_routes r_def)
  then show ?thesis
    using run assms(3) by (auto simp: rt_get_next_run rt_inv_good)
qed

theorem rt_add_then_next_witness:
  "\<exists>s'. rt_add_route demo_env 1 9 1 7 3 demo_rt = Some (1, s') \<and> rt_inv s' \<and> rt_get_next 9 s' = Some (7, s')"
  using rt_add_then_next [of demo_env demo_rt 1 9 3 9 1 7] by (simp add: demo_rt_sel)

text \<open>
  C9: a next hop that \<open>rt_get_next\<close> returns is never made up: the destination is an endpoint of the
  table other than this node, and the hop is the one towards it of a route listed there whose
  path identifier is the largest. For a destination that is no endpoint, the answer is 0, although
  the header promises the next closest hop.
\<close>

theorem rt_get_next_sound:
  assumes "rt_inv s" "\<not> held s vrr_rt_lock" "rt_get_next d s = Some (h, s')"
  shows "s' = s \<and> (h \<noteq> 0 \<longrightarrow> d \<noteq> ME s \<and>
      (\<exists>rs r. rt_routes (rt_root s) d = Some rs \<and> r \<in> set rs \<and> (\<forall>x \<in> set rs. path_id x \<le> path_id r)
         \<and> ((ea r = d \<and> h = na r) \<or> (eb r = d \<and> h = nb r))))
    \<and> (rt_routes (rt_root s) d = None \<longrightarrow> h = 0)"
proof -
  have h: "h = rt_search (ME s) (rt_root s) d" and s': "s' = s"
    using assms(2,3) by (auto simp: rt_get_next_run)
  have "\<exists>rs r. rt_routes (rt_root s) d = Some rs \<and> r \<in> set rs \<and> (\<forall>x \<in> set rs. path_id x \<le> path_id r)
         \<and> ((ea r = d \<and> h = na r) \<or> (eb r = d \<and> h = nb r))" if nz: "h \<noteq> 0"
  proof -
    obtain rs where rs: "rt_routes (rt_root s) d = Some rs" "d \<noteq> ME s" "route_list_search (ME s) rs d = h"
      using h nz by (cases "rt_routes (rt_root s) d") (auto simp: rt_search_routes split: if_splits)
    then show ?thesis
      using route_list_search_sound [OF rs(3) nz rs(2)] rt_routes_ok [OF _ rs(1)] assms(1)
      by (metis rt_inv_def)
  qed
  then show ?thesis using h s' by (auto simp: rt_search_routes split: option.splits if_splits)
qed

theorem rt_get_next_sound_witness:
  "rt_get_next 9 demo_rt1 = Some (7, demo_rt1) \<and> 9 \<noteq> ME demo_rt1"
proof -
  have run: "rt_get_next 9 demo_rt1 = Some (7, demo_rt1)"
    by (simp add: rt_get_next_run) (simp add: demo_rt1_def demo_rt_def route_list_search_def get_diff_def)
  then show ?thesis using rt_get_next_sound [OF _ _ run] by simp
qed



end
