(* ===== verification/Phys_Set.thy ===== *)
theory Phys_Set
  imports Route_Table
begin

text \<open>
  The physical set of \<open>vrr_data.c\<close>: the neighbours this node has heard from, with their link
  status, in a linked list guarded by \<open>vrr_pset_lock\<close>. New entries go to the head of the list.
  A lookup that fills a location through a pointer and returns 1 or 0 is modelled by an \<open>option\<close>
  result: \<open>Some\<close> of what it stores when it returns 1, \<open>None\<close> when it returns 0 and stores nothing.
\<close>

record pset_globals = rt_globals +
  pset :: "pset_entry list"
  pset_size :: nat

section \<open>Operations\<close>

definition pset_add ::
  "kenv \<Rightarrow> u32 \<Rightarrow> mac_addr \<Rightarrow> u32 \<Rightarrow> u32 \<Rightarrow> 'z pset_globals_scheme \<Rightarrow> (int \<times> 'z pset_globals_scheme) option" where
  "pset_add K node mac status active s = do {
     s \<leftarrow> spin_lock vrr_pset_lock s;
     if first_match (\<lambda>tmp. pl_node tmp = node) (pset s) \<noteq> None
     then do { s \<leftarrow> spin_unlock vrr_pset_lock s; Some (0, s) }
     else do {
       let (ok, s) = kmalloc K 40 s;
       _ \<leftarrow> (if ok \<and> pset_size s < INT_MAX then Some () else None);
       let tmp = \<lparr>pl_node = node, pl_status = status, pl_active = (if active \<noteq> 0 then 1 else 0),
                  pl_mac = mac, fail_count = 0\<rparr>;
       let s = s\<lparr>pset := tmp # pset s, pset_size := pset_size s + 1\<rparr>;
       s \<leftarrow> spin_unlock vrr_pset_lock s;
       Some (1, s) }
   }"

definition pset_remove :: "u32 \<Rightarrow> 'z pset_globals_scheme \<Rightarrow> (int \<times> 'z pset_globals_scheme) option" where
  "pset_remove node s = do {
     s \<leftarrow> spin_lock vrr_pset_lock s;
     let s = s\<lparr>pset := filter (\<lambda>tmp. pl_node tmp \<noteq> node) (pset s)\<rparr>;
     s \<leftarrow> spin_unlock vrr_pset_lock s;
     Some (0, s)
   }"

definition pset_get_status :: "u32 \<Rightarrow> 'z pset_globals_scheme \<Rightarrow> (u32 \<times> 'z pset_globals_scheme) option" where
  "pset_get_status node s = do {
     s \<leftarrow> spin_lock vrr_pset_lock s;
     case first_match (\<lambda>tmp. pl_node tmp = node) (pset s) of
       Some tmp \<Rightarrow> do { s \<leftarrow> spin_unlock vrr_pset_lock s; Some (pl_status tmp, s) }
     | None \<Rightarrow> do { s \<leftarrow> spin_unlock vrr_pset_lock s; Some (PSET_UNKNOWN, s) }
   }"

definition pset_update_status ::
  "u32 \<Rightarrow> u32 \<Rightarrow> u32 \<Rightarrow> 'z pset_globals_scheme \<Rightarrow> (int \<times> 'z pset_globals_scheme) option" where
  "pset_update_status node newstatus active s = do {
     s \<leftarrow> spin_lock vrr_pset_lock s;
     if first_match (\<lambda>tmp. pl_node tmp = node) (pset s) \<noteq> None
     then do {
       let s = s\<lparr>pset := upd_first (\<lambda>tmp. pl_node tmp = node)
                  (\<lambda>tmp. tmp\<lparr>pl_status := newstatus, pl_active := (if active \<noteq> 0 then 1 else 0)\<rparr>) (pset s)\<rparr>;
       s \<leftarrow> spin_unlock vrr_pset_lock s;
       Some (1, s) }
     else do { s \<leftarrow> spin_unlock vrr_pset_lock s; Some (0, s) }
   }"

definition pset_lookup_mac ::
  "mac_addr \<Rightarrow> 'z pset_globals_scheme \<Rightarrow> (u32 option \<times> 'z pset_globals_scheme) option" where
  "pset_lookup_mac mac s = do {
     s \<leftarrow> spin_lock vrr_pset_lock s;
     let ret = map_option pl_node (first_match (\<lambda>tmp. mac = pl_mac tmp) (pset s));
     s \<leftarrow> spin_unlock vrr_pset_lock s;
     Some (ret, s)
   }"

definition pset_get_active :: "u32 \<Rightarrow> 'z pset_globals_scheme \<Rightarrow> (u32 \<times> 'z pset_globals_scheme) option" where
  "pset_get_active node s = do {
     s \<leftarrow> spin_lock vrr_pset_lock s;
     let ret = (case first_match (\<lambda>tmp. pl_node tmp = node) (pset s) of None \<Rightarrow> 0 | Some tmp \<Rightarrow> pl_active tmp);
     s \<leftarrow> spin_unlock vrr_pset_lock s;
     Some (ret, s)
   }"

definition pset_get_mac ::
  "u32 \<Rightarrow> 'z pset_globals_scheme \<Rightarrow> (mac_addr option \<times> 'z pset_globals_scheme) option" where
  "pset_get_mac node s = do {
     s \<leftarrow> spin_lock vrr_pset_lock s;
     let ret = map_option pl_mac (first_match (\<lambda>tmp. pl_node tmp = node) (pset s));
     s \<leftarrow> spin_unlock vrr_pset_lock s;
     Some (ret, s)
   }"

text \<open>\<open>atomic_inc\<close> and \<open>atomic_read\<close> on the entry the caller stands on.\<close>

definition pset_inc_fail_count :: "pset_entry \<Rightarrow> u32 \<times> pset_entry" where
  "pset_inc_fail_count node =
     (let node = node\<lparr>fail_count := fail_count node + 1\<rparr> in (fail_count node, node))"

definition pset_reset_fail_count :: "u32 \<Rightarrow> 'z pset_globals_scheme \<Rightarrow> (int \<times> 'z pset_globals_scheme) option" where
  "pset_reset_fail_count node s = do {
     s \<leftarrow> spin_lock vrr_pset_lock s;
     if first_match (\<lambda>tmp. pl_node tmp = node) (pset s) \<noteq> None
     then do {
       let s = s\<lparr>pset := upd_first (\<lambda>tmp. pl_node tmp = node) (\<lambda>tmp. tmp\<lparr>fail_count := 0\<rparr>) (pset s)\<rparr>;
       s \<leftarrow> spin_unlock vrr_pset_lock s;
       Some (0, s) }
     else do { s \<leftarrow> spin_unlock vrr_pset_lock s; Some (-1, s) }
   }"

text \<open>\<open>pset_head\<close> hands out the list itself; \<open>vrr_core.c\<close> walks it without the lock.\<close>

definition pset_head :: "'z pset_globals_scheme \<Rightarrow> pset_entry list" where
  "pset_head s = pset s"

text \<open>
  \<open>pset_get_proxy\<close> collects the linked and active neighbours in an array of \<open>VRR_PSET_SIZE\<close> cells
  without checking the index, then picks one of them at random.
\<close>

definition pset_get_proxy :: "kenv \<Rightarrow> 'z pset_globals_scheme \<Rightarrow> (u32 option \<times> 'z pset_globals_scheme) option" where
  "pset_get_proxy K s = do {
     s \<leftarrow> spin_lock vrr_pset_lock s;
     let act = map pl_node (filter (\<lambda>tmp. pl_status tmp = PSET_LINKED \<and> pl_active tmp \<noteq> 0) (pset s));
     _ \<leftarrow> (if length act \<le> VRR_PSET_SIZE then Some () else None);
     s \<leftarrow> spin_unlock vrr_pset_lock s;
     if act = [] then Some (None, s)
     else do {
       let (r, s) = get_random_bytes K s;
       p \<leftarrow> idx act (unat r mod length act);
       Some (Some p, s) }
   }"

definition pset_contains :: "u32 \<Rightarrow> 'z pset_globals_scheme \<Rightarrow> (int \<times> 'z pset_globals_scheme) option" where
  "pset_contains i s = do {
     s \<leftarrow> spin_lock vrr_pset_lock s;
     let ret = (if first_match (\<lambda>tmp. pl_node tmp = i) (pset s) \<noteq> None then 1 else 0);
     s \<leftarrow> spin_unlock vrr_pset_lock s;
     Some (ret, s)
   }"

section \<open>Views and invariant\<close>

interpretation pl: keyed_list pl_node .

text \<open>What the set records of a node.\<close>

definition neighbour :: "'z pset_globals_scheme \<Rightarrow> u32 \<Rightarrow> pset_entry option" where
  "neighbour s node = first_match (\<lambda>tmp. pl_node tmp = node) (pset s)"

definition link_status :: "'z pset_globals_scheme \<Rightarrow> u32 \<Rightarrow> u32" where
  "link_status s node = (case neighbour s node of None \<Rightarrow> PSET_UNKNOWN | Some e \<Rightarrow> pl_status e)"

definition entry_ok :: "pset_entry \<Rightarrow> bool" where
  "entry_ok e \<longleftrightarrow> pl_status e \<in> {PSET_LINKED, PSET_PENDING, PSET_FAILED} \<and> pl_active e \<in> {0, 1}
     \<and> length (pl_mac e) = ETH_ALEN \<and> fail_count e < 2 * VRR_FAIL_TIMEOUT"

definition pset_inv :: "'z pset_globals_scheme \<Rightarrow> bool" where
  "pset_inv s \<longleftrightarrow> distinct (map pl_node (pset s)) \<and> (\<forall>e \<in> set (pset s). entry_ok e)
     \<and> length (pset s) \<le> pset_size s \<and> pset_size s \<le> INT_MAX"

section \<open>What the operations return\<close>

lemma pset_get_status_run [op_simps]:
  "\<not> held s vrr_pset_lock \<Longrightarrow> pset_get_status node s = Some (link_status s node, s)"
  by (simp add: pset_get_status_def spin_lock_def spin_unlock_def held_idem link_status_def neighbour_def
      split: option.split)

lemma pset_get_active_run [op_simps]:
  "\<not> held s vrr_pset_lock \<Longrightarrow>
     pset_get_active node s = Some (case neighbour s node of None \<Rightarrow> 0 | Some e \<Rightarrow> pl_active e, s)"
  by (simp add: pset_get_active_def spin_lock_def spin_unlock_def held_idem neighbour_def)

lemma pset_get_mac_run [op_simps]:
  "\<not> held s vrr_pset_lock \<Longrightarrow> pset_get_mac node s = Some (map_option pl_mac (neighbour s node), s)"
  by (simp add: pset_get_mac_def spin_lock_def spin_unlock_def held_idem neighbour_def)

lemma pset_lookup_mac_run [op_simps]:
  "\<not> held s vrr_pset_lock \<Longrightarrow>
     pset_lookup_mac mac s = Some (map_option pl_node (first_match (\<lambda>e. mac = pl_mac e) (pset s)), s)"
  by (simp add: pset_lookup_mac_def spin_lock_def spin_unlock_def held_idem)

lemma pset_contains_run [op_simps]:
  "\<not> held s vrr_pset_lock \<Longrightarrow> pset_contains i s = Some (if neighbour s i \<noteq> None then 1 else 0, s)"
  by (simp add: pset_contains_def spin_lock_def spin_unlock_def held_idem neighbour_def)

lemma pset_remove_run [op_simps]:
  "\<not> held s vrr_pset_lock \<Longrightarrow>
     pset_remove node s = Some (0, s\<lparr>pset := filter (\<lambda>tmp. pl_node tmp \<noteq> node) (pset s)\<rparr>)"
  by (simp add: pset_remove_def spin_lock_def spin_unlock_def fun_upd_idem)

lemma pset_update_status_run [op_simps]:
  "\<not> held s vrr_pset_lock \<Longrightarrow> pset_update_status node st act s =
     Some (if neighbour s node = None then 0 else 1,
       s\<lparr>pset := upd_first (\<lambda>tmp. pl_node tmp = node)
          (\<lambda>tmp. tmp\<lparr>pl_status := st, pl_active := (if act \<noteq> 0 then 1 else 0)\<rparr>) (pset s)\<rparr>)"
  by (auto simp: pset_update_status_def spin_lock_def spin_unlock_def fun_upd_idem neighbour_def upd_first_id)

lemma pset_reset_fail_count_run [op_simps]:
  "\<not> held s vrr_pset_lock \<Longrightarrow> pset_reset_fail_count node s =
     Some (if neighbour s node = None then -1 else 0,
       s\<lparr>pset := upd_first (\<lambda>tmp. pl_node tmp = node) (\<lambda>tmp. tmp\<lparr>fail_count := 0\<rparr>) (pset s)\<rparr>)"
  by (auto simp: pset_reset_fail_count_def spin_lock_def spin_unlock_def fun_upd_idem neighbour_def upd_first_id)

text \<open>A known node is refused; a new one is put in front, if there is memory for it.\<close>

lemma pset_add_known:
  "\<not> held s vrr_pset_lock \<Longrightarrow> neighbour s node \<noteq> None \<Longrightarrow> pset_add K node mac st act s = Some (0, s)"
  by (auto simp: pset_add_def spin_lock_def spin_unlock_def held_idem neighbour_def)

lemma pset_add_new:
  "\<not> held s vrr_pset_lock \<Longrightarrow> neighbour s node = None \<Longrightarrow> pset_add K node mac st act s =
     (if k_alloc K (clock (io s)) \<and> pset_size s < INT_MAX
      then Some (1, (tick s)\<lparr>pset := \<lparr>pl_node = node, pl_status = st, pl_active = (if act \<noteq> 0 then 1 else 0),
             pl_mac = mac, fail_count = 0\<rparr> # pset s, pset_size := pset_size s + 1\<rparr>)
      else None)"
  by (simp add: pset_add_def spin_lock_def spin_unlock_def neighbour_def kmalloc_def tick_def fun_upd_idem)

definition proxies :: "'z pset_globals_scheme \<Rightarrow> u32 list" where
  "proxies s = map pl_node (filter (\<lambda>tmp. pl_status tmp = PSET_LINKED \<and> pl_active tmp \<noteq> 0) (pset s))"

lemma pset_get_proxy_run [op_simps]:
  "\<not> held s vrr_pset_lock \<Longrightarrow> pset_get_proxy K s =
     (if VRR_PSET_SIZE < length (proxies s) then None
      else if proxies s = [] then Some (None, s)
      else Some (Some (proxies s ! (unat (k_random K (clock (io s))) mod length (proxies s))), tick s))"
  by (auto simp: pset_get_proxy_def spin_lock_def spin_unlock_def held_idem get_random_bytes_def idx_def
      proxies_def Let_def)

section \<open>Frame and invariant\<close>

lemma neighbour_io_only: "io_only s t \<Longrightarrow> neighbour t = neighbour s"
  by (auto simp: neighbour_def fun_eq_iff elim!: io_onlyE)

lemma link_status_io_only: "io_only s t \<Longrightarrow> link_status t = link_status s"
  by (auto simp: link_status_def fun_eq_iff neighbour_io_only)

lemma pset_inv_io_only: "io_only s t \<Longrightarrow> pset_inv t = pset_inv s"
  by (auto simp: pset_inv_def elim!: io_onlyE)

lemma neighbour_in_pset: "neighbour s node = Some e \<Longrightarrow> e \<in> set (pset s) \<and> pl_node e = node"
  unfolding neighbour_def by (rule first_match_SomeD)

lemma neighbour_mac_length: "pset_inv s \<Longrightarrow> neighbour s node = Some e \<Longrightarrow> length (pl_mac e) = ETH_ALEN"
  by (auto simp: pset_inv_def entry_ok_def dest!: neighbour_in_pset)

lemma pset_inv_upd_first:
  assumes "pset_inv s" "\<And>e. entry_ok e \<Longrightarrow> entry_ok (f e)" "\<And>e. pl_node (f e) = pl_node e"
  shows "pset_inv (s\<lparr>pset := upd_first P f (pset s)\<rparr>)"
  using assms by (auto simp: pset_inv_def map_upd_first dest!: set_upd_first)

lemma pset_inv_update_status:
  assumes "pset_inv s" "st \<in> {PSET_LINKED, PSET_PENDING, PSET_FAILED}" "\<not> held s vrr_pset_lock"
    and "pset_update_status node st act s = Some (r, s')"
  shows "pset_inv s'"
  using assms by (auto simp: pset_update_status_run entry_ok_def intro!: pset_inv_upd_first)

lemma pset_inv_reset:
  assumes "pset_inv s" "\<not> held s vrr_pset_lock" "pset_reset_fail_count node s = Some (r, s')"
  shows "pset_inv s'"
  using assms by (auto simp: pset_reset_fail_count_run entry_ok_def intro!: pset_inv_upd_first)

lemma pset_inv_add:
  assumes "pset_inv s" "st \<in> {PSET_LINKED, PSET_PENDING, PSET_FAILED}" "length mac = ETH_ALEN"
    "\<not> held s vrr_pset_lock" and run: "pset_add K node mac st act s = Some (r, s')"
  shows "pset_inv s'"
proof (cases "neighbour s node")
  case None
  then show ?thesis
    using assms by (auto simp: pset_add_new tick_def pset_inv_def entry_ok_def neighbour_def
        first_match_None_iff split: if_splits)
next
  case (Some e)
  then show ?thesis using pset_add_known assms by fastforce
qed

text \<open>A neighbour's record after an update and after an addition.\<close>

lemma neighbour_update:
  "neighbour (s\<lparr>pset := upd_first (\<lambda>tmp. pl_node tmp = node) f (pset s)\<rparr>) x =
     (if x = node then map_option f (neighbour s node) else neighbour s x)"
  if "\<And>e. pl_node (f e) = pl_node e"
  using pl.lookup_upd_first [of f x node "pset s"] that by (simp add: neighbour_def)

section \<open>Properties\<close>

text \<open>A node with one neighbour.\<close>

definition demo_pset :: pset_globals where
  "demo_pset = \<lparr>io = idle_io, held = (\<lambda>l. False), ME = 5, rt_root = \<langle>\<rangle>,
     pset = [\<lparr>pl_node = 7, pl_status = PSET_LINKED, pl_active = 1, pl_mac = [2, 0, 0, 0, 0, 7], fail_count = 3\<rparr>], pset_size = 1\<rparr>"

text \<open>
  C16: the physical set refines a map from identifiers to records. A known node is not added again; a new
  one is recorded with its status, its activity as 0 or 1 and no failures, if there is memory. Removing
  forgets exactly that node, updating and resetting change exactly its record, and what the four
  lookups answer is a function of the map. No operation leaves the lock held.
\<close>

theorem pset_refines_map:
  assumes "pset_inv s" "\<not> held s vrr_pset_lock"
  shows "(case neighbour s x of
       Some e \<Rightarrow> pset_add K x mac st act s = Some (0, s)
     | None \<Rightarrow> k_alloc K (clock (io s)) \<and> pset_size s < INT_MAX \<longrightarrow>
         (\<exists>t. pset_add K x mac st act s = Some (1, t) \<and> held t = held s \<and> pset_size t = pset_size s + 1
            \<and> neighbour t = (neighbour s)(x \<mapsto> \<lparr>pl_node = x, pl_status = st, pl_active = (if act \<noteq> 0 then 1 else 0), pl_mac = mac, fail_count = 0\<rparr>)))
    \<and> (\<exists>t. pset_remove x s = Some (0, t) \<and> held t = held s \<and> pset_size t = pset_size s \<and> neighbour t = (neighbour s)(x := None))
    \<and> (\<exists>r t. pset_update_status x st act s = Some (r, t) \<and> held t = held s \<and> (r = 1 \<longleftrightarrow> neighbour s x \<noteq> None)
         \<and> neighbour t = (neighbour s)(x := map_option (\<lambda>e. e\<lparr>pl_status := st, pl_active := (if act \<noteq> 0 then 1 else 0)\<rparr>) (neighbour s x)))
    \<and> (\<exists>r t. pset_reset_fail_count x s = Some (r, t) \<and> held t = held s \<and> (r = 0 \<longleftrightarrow> neighbour s x \<noteq> None)
         \<and> neighbour t = (neighbour s)(x := map_option (\<lambda>e. e\<lparr>fail_count := 0\<rparr>) (neighbour s x)))
    \<and> pset_get_status x s = Some (case neighbour s x of None \<Rightarrow> PSET_UNKNOWN | Some e \<Rightarrow> pl_status e, s)
    \<and> pset_get_active x s = Some (case neighbour s x of None \<Rightarrow> 0 | Some e \<Rightarrow> pl_active e, s)
    \<and> pset_get_mac x s = Some (map_option pl_mac (neighbour s x), s)
    \<and> pset_contains x s = Some (if neighbour s x = None then 0 else 1, s)"
proof (intro conjI)
  show "case neighbour s x of
       Some e \<Rightarrow> pset_add K x mac st act s = Some (0, s)
     | None \<Rightarrow> k_alloc K (clock (io s)) \<and> pset_size s < INT_MAX \<longrightarrow>
         (\<exists>t. pset_add K x mac st act s = Some (1, t) \<and> held t = held s \<and> pset_size t = pset_size s + 1
            \<and> neighbour t = (neighbour s)(x \<mapsto> \<lparr>pl_node = x, pl_status = st, pl_active = (if act \<noteq> 0 then 1 else 0), pl_mac = mac, fail_count = 0\<rparr>))"
    using pset_add_known [OF assms(2)] pset_add_new [OF assms(2)]
    by (auto simp: tick_def neighbour_def fun_eq_iff split: option.split)
  show "\<exists>t. pset_remove x s = Some (0, t) \<and> held t = held s \<and> pset_size t = pset_size s \<and> neighbour t = (neighbour s)(x := None)"
    by (simp add: pset_remove_run [OF assms(2)] neighbour_def fun_eq_iff pl.lookup_filter)
  show "\<exists>r t. pset_update_status x st act s = Some (r, t) \<and> held t = held s \<and> (r = 1 \<longleftrightarrow> neighbour s x \<noteq> None)
         \<and> neighbour t = (neighbour s)(x := map_option (\<lambda>e. e\<lparr>pl_status := st, pl_active := (if act \<noteq> 0 then 1 else 0)\<rparr>) (neighbour s x))"
    by (simp add: pset_update_status_run [OF assms(2)] fun_eq_iff neighbour_update)
  show "\<exists>r t. pset_reset_fail_count x s = Some (r, t) \<and> held t = held s \<and> (r = 0 \<longleftrightarrow> neighbour s x \<noteq> None)
         \<and> neighbour t = (neighbour s)(x := map_option (\<lambda>e. e\<lparr>fail_count := 0\<rparr>) (neighbour s x))"
    by (simp add: pset_reset_fail_count_run [OF assms(2)] fun_eq_iff neighbour_update)
qed (simp_all add: op_simps assms(2) link_status_def)

theorem pset_refines_map_witness:
  "\<exists>t. pset_add demo_env 9 [2, 0, 0, 0, 0, 9] PSET_PENDING 5 demo_pset = Some (1, t) \<and> pset_size t = 2
     \<and> neighbour t 9 = Some \<lparr>pl_node = 9, pl_status = PSET_PENDING, pl_active = 1, pl_mac = [2, 0, 0, 0, 0, 9], fail_count = 0\<rparr>"
proof -
  have "pset_inv demo_pset" "\<not> held demo_pset vrr_pset_lock" "neighbour demo_pset 9 = None" "pset_size demo_pset = 1"
    by (simp_all add: demo_pset_def pset_inv_def entry_ok_def neighbour_def INT_MAX_def)
  then show ?thesis
    using pset_refines_map [where s = demo_pset and x = 9 and K = demo_env and mac = "[2, 0, 0, 0, 0, 9]" and st = PSET_PENDING and act = 5,
      THEN conjunct1] by (auto simp: INT_MAX_def)
qed

end
