(* ===== verification/Virt_Set.thy ===== *)
theory Virt_Set
  imports Phys_Set
begin

text \<open>
  The virtual set of \<open>vrr_data.c\<close>: the neighbours on the identifier ring, guarded by \<open>vrr_vset_lock\<close>.
  \<open>vset_size\<close> counts insertions; as in the source no operation that unlinks an entry lowers it, so it
  can exceed the length of the list. Arrays of \<open>vset_size\<close> cells then keep the old contents of
  their memory in the cells the list does not reach.
\<close>

record vset_globals = pset_globals +
  vset :: "vset_entry list"
  vset_size :: nat

section \<open>Operations\<close>

definition insert_vset_node :: "kenv \<Rightarrow> u32 \<Rightarrow> 'z vset_globals_scheme \<Rightarrow> 'z vset_globals_scheme option" where
  "insert_vset_node K node s = do {
     let (ok, s) = kmalloc K 32 s;
     _ \<leftarrow> (if ok \<and> vset_size s < INT_MAX then Some () else None);
     let tmp = \<lparr>vl_node = node, diff_left = left_of (ME s) node, diff_right = right_of (ME s) node\<rparr>;
     Some (s\<lparr>vset := tmp # vset s, vset_size := vset_size s + 1\<rparr>)
   }"

text \<open>\<open>cmp_diff\<close> compares the two pointers it is given, not what they point to.\<close>

definition cmp_diff :: "u32 list \<Rightarrow> nat \<Rightarrow> nat \<Rightarrow> int" where
  "cmp_diff mem a b = (if a < b then -1 else if a > b then 1 else 0)"

abbreviation (input) vset_radius :: nat where "vset_radius \<equiv> 2"

text \<open>The result is the return value and, if \<open>*rem\<close> is written, the node stored there.\<close>

definition vset_bump :: "kenv \<Rightarrow> 'z vset_globals_scheme \<Rightarrow> ((int \<times> u32 option) \<times> 'z vset_globals_scheme) option" where
  "vset_bump K s = do {
     let (jl, s) = uninit K s;
     let (jr, s) = uninit K s;
     if vset_size s \<le> VRR_VSET_SIZE then Some ((0, None), s)
     else do {
       left \<leftarrow> fill_array (vset_size s) (map diff_left (vset s)) jl;
       right \<leftarrow> fill_array (vset_size s) (map diff_right (vset s)) jr;
       l \<leftarrow> idx (k_sort K cmp_diff left) vset_radius;
       r \<leftarrow> idx (k_sort K cmp_diff right) vset_radius;
       case first_match (\<lambda>tmp. diff_left tmp = l \<and> diff_right tmp = r) (vset s) of
         Some tmp \<Rightarrow> Some ((1, Some (vl_node tmp)),
           s\<lparr>vset := del_first (\<lambda>tmp. diff_left tmp = l \<and> diff_right tmp = r) (vset s)\<rparr>)
       | None \<Rightarrow> Some ((-1, None), s) }
   }"

definition vset_add ::
  "kenv \<Rightarrow> u32 \<Rightarrow> 'z vset_globals_scheme \<Rightarrow> ((int \<times> u32 option) \<times> 'z vset_globals_scheme) option" where
  "vset_add K node s = do {
     s \<leftarrow> spin_lock vrr_vset_lock s;
     if first_match (\<lambda>tmp. vl_node tmp = node) (vset s) \<noteq> None
     then do { s \<leftarrow> spin_unlock vrr_vset_lock s; Some ((-1, None), s) }
     else do {
       s \<leftarrow> insert_vset_node K node s;
       ((bumped, rem), s) \<leftarrow> vset_bump K s;
       s \<leftarrow> spin_unlock vrr_vset_lock s;
       Some ((if bumped = 0 then 0 else 1, rem), s) }
   }"

definition vset_should_add :: "kenv \<Rightarrow> u32 \<Rightarrow> 'z vset_globals_scheme \<Rightarrow> (int \<times> 'z vset_globals_scheme) option" where
  "vset_should_add K node s = do {
     let (jl, s) = uninit K s;
     let (jr, s) = uninit K s;
     let dl = left_of (ME s) node;
     let dr = right_of (ME s) node;
     s \<leftarrow> spin_lock vrr_vset_lock s;
     if first_match (\<lambda>tmp. vl_node tmp = node) (vset s) \<noteq> None
     then do { s \<leftarrow> spin_unlock vrr_vset_lock s; Some (0, s) }
     else if vset_size s < VRR_VSET_SIZE
     then do { s \<leftarrow> spin_unlock vrr_vset_lock s; Some (1, s) }
     else do {
       left \<leftarrow> fill_array (vset_size s) (map diff_left (vset s)) jl;
       right \<leftarrow> fill_array (vset_size s) (map diff_right (vset s)) jr;
       s \<leftarrow> spin_unlock vrr_vset_lock s;
       let left = k_sort K cmp_diff left;
       let right = k_sort K cmp_diff right;
       l0 \<leftarrow> idx left 0; r0 \<leftarrow> idx right 0;
       l1 \<leftarrow> idx left 1; r1 \<leftarrow> idx right 1;
       Some (if l0 > dl \<or> r0 > dr \<or> l1 > dl \<or> r1 > dr then 1 else 0, s) }
   }"

definition vset_remove :: "u32 \<Rightarrow> 'z vset_globals_scheme \<Rightarrow> (int \<times> 'z vset_globals_scheme) option" where
  "vset_remove node s = do {
     s \<leftarrow> spin_lock vrr_vset_lock s;
     if first_match (\<lambda>tmp. vl_node tmp = node) (vset s) \<noteq> None
     then do {
       let s = s\<lparr>vset := del_first (\<lambda>tmp. vl_node tmp = node) (vset s)\<rparr>;
       s \<leftarrow> spin_unlock vrr_vset_lock s;
       Some (1, s) }
     else do { s \<leftarrow> spin_unlock vrr_vset_lock s; Some (0, s) }
   }"

text \<open>
  \<open>vset_get_all\<close> returns the size and the array it allocated. When the allocation fails the loop
  stores through NULL unless the list is empty; the caller then holds a NULL array (no cells).
\<close>

definition vset_get_all ::
  "kenv \<Rightarrow> 'z vset_globals_scheme \<Rightarrow> ((nat \<times> u32 list) \<times> 'z vset_globals_scheme) option" where
  "vset_get_all K s = do {
     s \<leftarrow> spin_lock vrr_vset_lock s;
     let l_vset_size = vset_size s;
     let (ok, s) = kmalloc K (4 * l_vset_size) s;
     let (j, s) = uninit K s;
     arr \<leftarrow> (if ok then fill_array l_vset_size (map vl_node (vset s)) j
             else if vset s = [] then Some [] else None);
     s \<leftarrow> spin_unlock vrr_vset_lock s;
     Some ((l_vset_size, arr), s)
   }"

section \<open>Views and invariant\<close>

interpretation vl: keyed_list vl_node .

definition in_vset :: "'z vset_globals_scheme \<Rightarrow> u32 \<Rightarrow> bool" where
  "in_vset s node \<longleftrightarrow> node \<in> vl_node ` set (vset s)"

definition vset_inv :: "'z vset_globals_scheme \<Rightarrow> bool" where
  "vset_inv s \<longleftrightarrow> distinct (map vl_node (vset s))
     \<and> (\<forall>e \<in> set (vset s). diff_left e = left_of (ME s) (vl_node e) \<and> diff_right e = right_of (ME s) (vl_node e))
     \<and> length (vset s) \<le> vset_size s \<and> vset_size s \<le> INT_MAX"

lemma vset_inv_io_only: "io_only s t \<Longrightarrow> vset_inv t = vset_inv s"
  by (auto simp: vset_inv_def elim!: io_onlyE)

lemma cmp_diff_address_only: "address_only cmp_diff"
  by (simp add: address_only_def cmp_diff_def)

text \<open>What sorting with \<open>cmp_diff\<close> does: the same rearrangement of every array of that length.\<close>

lemma sort_cmp_diff:
  assumes "sort_by_address K"
  obtains p where "bij_betw p {..<n} {..<n}"
    "\<forall>xs. length xs = n \<longrightarrow> k_sort K cmp_diff xs = map (\<lambda>i. xs ! p i) [0..<n]"
  using assms cmp_diff_address_only unfolding sort_by_address_def by blast

lemma length_sort_cmp_diff: "sort_by_address K \<Longrightarrow> length (k_sort K cmp_diff xs) = length xs"
  by (rule sort_cmp_diff [of K "length xs"]) auto

section \<open>What the operations return\<close>

lemma vset_lookup_iff: "first_match (\<lambda>tmp. vl_node tmp = node) (vset s) = None \<longleftrightarrow> \<not> in_vset s node"
  by (simp add: in_vset_def vl.lookup_None_iff)

lemma vset_remove_run [op_simps]:
  "\<not> held s vrr_vset_lock \<Longrightarrow> vset_remove node s =
     Some (if in_vset s node then 1 else 0, s\<lparr>vset := del_first (\<lambda>tmp. vl_node tmp = node) (vset s)\<rparr>)"
  by (auto simp: vset_remove_def spin_lock_def spin_unlock_def fun_upd_idem vset_lookup_iff
      in_vset_def vl.del_absent)

lemma vset_get_all_run:
  assumes "\<not> held s vrr_vset_lock" "vset_inv s"
  shows "vset_get_all K s =
    (if vset_size s = 0 \<or> k_alloc K (clock (io s))
     then Some ((vset_size s, map vl_node (vset s) @ map (k_junk K (Suc (clock (io s)))) [length (vset s)..<vset_size s]),
            tick (tick s))
     else if vset s = [] then Some ((vset_size s, []), tick (tick s)) else None)"
  using assms
  by (auto simp: vset_get_all_def spin_lock_def spin_unlock_def kmalloc_def uninit_def tick_def fun_upd_idem
      fill_array_def vset_inv_def Let_def)

text \<open>
  \<open>vset_should_add\<close> always answers 0 or 1 and changes nothing. Once the set has been filled, the
  answer depends on the first two cells of the rearranged arrays.
\<close>

definition diff_cells :: "kenv \<Rightarrow> (vset_entry \<Rightarrow> u32) \<Rightarrow> nat \<Rightarrow> 'z vset_globals_scheme \<Rightarrow> u32 list" where
  "diff_cells K diff n s =
     k_sort K cmp_diff (map diff (vset s) @ map (k_junk K n) [length (vset s)..<vset_size s])"

lemma length_diff_cells:
  "sort_by_address K \<Longrightarrow> vset_inv s \<Longrightarrow> length (diff_cells K diff n s) = vset_size s"
  by (simp add: diff_cells_def length_sort_cmp_diff vset_inv_def)

lemma vset_should_add_run:
  fixes node :: u32
  assumes "\<not> held s vrr_vset_lock" "vset_inv s" "sort_by_address K"
  defines "L \<equiv> diff_cells K diff_left (clock (io s)) s"
    and "R \<equiv> diff_cells K diff_right (Suc (clock (io s))) s"
    and "dl \<equiv> left_of (ME s) node" and "dr \<equiv> right_of (ME s) node"
  shows "vset_should_add K node s =
    Some (if in_vset s node then 0
          else if vset_size s < VRR_VSET_SIZE then 1
          else if L ! 0 > dl \<or> R ! 0 > dr \<or> L ! 1 > dl \<or> R ! 1 > dr then 1 else 0,
          tick (tick s))"
proof -
  have len: "length (vset s) \<le> vset_size s" using assms(2) by (simp add: vset_inv_def)
  show ?thesis
    using assms(1) len length_diff_cells [OF assms(3,2), of diff_left "clock (io s)"]
      length_diff_cells [OF assms(3,2), of diff_right "Suc (clock (io s))"]
    unfolding assms(4-7)
    by (auto simp: vset_should_add_def uninit_def spin_lock_def spin_unlock_def tick_def fun_upd_idem Let_def
        fill_array_def idx_def vset_lookup_iff in_vset_def diff_cells_def)
qed

lemma insert_vset_node_run:
  "insert_vset_node K node s =
     (if k_alloc K (clock (io s)) \<and> vset_size s < INT_MAX
      then Some ((tick s)\<lparr>vset := \<lparr>vl_node = node, diff_left = left_of (ME s) node,
             diff_right = right_of (ME s) node\<rparr> # vset s, vset_size := vset_size s + 1\<rparr>)
      else None)"
  by (simp add: insert_vset_node_def kmalloc_def tick_def)

text \<open>The entry a bump looks for: the one whose differences stand at the radius of both arrays.\<close>

definition bump_key :: "kenv \<Rightarrow> 'z vset_globals_scheme \<Rightarrow> vset_entry \<Rightarrow> bool" where
  "bump_key K s tmp \<longleftrightarrow> diff_left tmp = diff_cells K diff_left (clock (io s)) s ! vset_radius
     \<and> diff_right tmp = diff_cells K diff_right (Suc (clock (io s))) s ! vset_radius"

lemma vset_bump_run:
  assumes "sort_by_address K" "vset_inv s"
  shows "vset_bump K s =
    (if vset_size s \<le> VRR_VSET_SIZE then Some ((0, None), tick (tick s))
     else case first_match (bump_key K s) (vset s) of
       Some e \<Rightarrow> Some ((1, Some (vl_node e)), (tick (tick s))\<lparr>vset := del_first (bump_key K s) (vset s)\<rparr>)
     | None \<Rightarrow> Some ((-1, None), tick (tick s)))"
proof -
  have len: "length (vset s) \<le> vset_size s" using assms(2) by (simp add: vset_inv_def)
  have "bump_key K s = (\<lambda>tmp. diff_left tmp = diff_cells K diff_left (clock (io s)) s ! vset_radius
     \<and> diff_right tmp = diff_cells K diff_right (Suc (clock (io s))) s ! vset_radius)"
    by (simp add: bump_key_def fun_eq_iff)
  then show ?thesis
    using len length_diff_cells [OF assms, of diff_left "clock (io s)"]
      length_diff_cells [OF assms, of diff_right "Suc (clock (io s))"]
    by (simp add: vset_bump_def uninit_def tick_def Let_def fill_array_def idx_def diff_cells_def
        split: option.split)
qed

section \<open>Invariant\<close>

lemma vset_inv_del_first: "vset_inv s \<Longrightarrow> vset_inv (s\<lparr>vset := del_first P (vset s)\<rparr>)"
  using set_del_first_subset [of P "vset s"]
  by (auto simp: vset_inv_def distinct_map_del_first length_del_first)

lemma vset_inv_insert:
  "vset_inv s \<Longrightarrow> \<not> in_vset s node \<Longrightarrow> insert_vset_node K node s = Some s' \<Longrightarrow> vset_inv s'"
  by (auto simp: insert_vset_node_run vset_inv_def in_vset_def tick_def split: if_splits)

text \<open>The lock has no influence on the work done under it.\<close>

lemma held_irrelevant:
  "vset_inv (s\<lparr>held := h\<rparr>) = vset_inv s" "in_vset (s\<lparr>held := h\<rparr>) node = in_vset s node"
  "diff_cells K diff n (s\<lparr>held := h\<rparr>) = diff_cells K diff n s" "bump_key K (s\<lparr>held := h\<rparr>) = bump_key K s"
  by (simp_all add: vset_inv_def in_vset_def diff_cells_def bump_key_def fun_eq_iff)

lemma insert_vset_node_held:
  "insert_vset_node K node (s\<lparr>held := h\<rparr>) = map_option (\<lambda>t. t\<lparr>held := h\<rparr>) (insert_vset_node K node s)"
  by (simp add: insert_vset_node_run tick_def)

lemma vset_bump_held:
  "vset_bump K (s\<lparr>held := h\<rparr>) = map_option (\<lambda>(r, t). (r, t\<lparr>held := h\<rparr>)) (vset_bump K s)"
  if "sort_by_address K" "vset_inv s"
  using that by (simp add: vset_bump_run held_irrelevant tick_def split: option.split)

lemma vset_add_known: "\<not> held s vrr_vset_lock \<Longrightarrow> in_vset s node \<Longrightarrow> vset_add K node s = Some ((-1, None), s)"
  by (simp add: vset_add_def spin_lock_def spin_unlock_def held_idem fun_upd_idem vset_lookup_iff in_vset_def)

lemma insert_vset_node_held_eq: "insert_vset_node K node s = Some t \<Longrightarrow> held t = held s"
  by (auto simp: insert_vset_node_run tick_def split: if_splits)

lemma vset_bump_held_eq: "vset_bump K s = Some (r, t) \<Longrightarrow> held t = held s"
  by (auto simp: vset_bump_def uninit_def tick_def run_simps Let_def split: if_splits option.splits)

lemma vset_add_new:
  assumes "sort_by_address K" "vset_inv s" "\<not> held s vrr_vset_lock" "\<not> in_vset s node"
  shows "vset_add K node s = do {
     s \<leftarrow> insert_vset_node K node s;
     ((bumped, rem), s) \<leftarrow> vset_bump K s;
     Some ((if bumped = 0 then 0 else 1, rem), s) }"
proof (cases "insert_vset_node K node s")
  case None
  then show ?thesis
    using assms(3,4) by (simp add: vset_add_def spin_lock_def vset_lookup_iff held_irrelevant insert_vset_node_held)
next
  case (Some s1)
  have inv1: "vset_inv s1" by (rule vset_inv_insert [OF assms(2,4) Some])
  have h1: "held s1 = held s" by (rule insert_vset_node_held_eq [OF Some])
  show ?thesis
  proof (cases "vset_bump K s1")
    case None
    then show ?thesis
      using assms(3,4) Some inv1
      by (simp add: vset_add_def spin_lock_def vset_lookup_iff held_irrelevant insert_vset_node_held
          vset_bump_held [OF assms(1)])
  next
    case (Some r)
    obtain b rem s2 where r: "r = ((b, rem), s2)" by (metis prod.exhaust)
    have "held s2 = held s" using vset_bump_held_eq [of K s1 _ s2] Some r h1 by simp
    then show ?thesis
      using assms(3,4) \<open>insert_vset_node K node s = Some s1\<close> inv1 Some r
      by (simp add: vset_add_def spin_lock_def spin_unlock_def vset_lookup_iff held_irrelevant
          insert_vset_node_held vset_bump_held [OF assms(1)] fun_upd_idem)
  qed
qed

text \<open>Which part of the state the virtual-set operations may change.\<close>

definition vset_only :: "'z vset_globals_scheme \<Rightarrow> 'z vset_globals_scheme \<Rightarrow> bool" where
  "vset_only s t \<longleftrightarrow> t = s\<lparr>io := io t, vset := vset t, vset_size := vset_size t\<rparr>"

lemma vset_onlyI [simp]: "vset_only s (s\<lparr>io := i, vset := v, vset_size := n\<rparr>)"
  by (simp add: vset_only_def)

lemma vset_onlyE:
  assumes "vset_only s t"
  obtains i v n where "t = s\<lparr>io := i, vset := v, vset_size := n\<rparr>"
  using assms unfolding vset_only_def by blast

lemma vset_only_io: "io_only s t \<Longrightarrow> vset_only s t"
  by (auto simp: vset_only_def elim!: io_onlyE)

lemma vset_only_refl [simp]: "vset_only s s"
  by (simp add: vset_only_io)

lemma vset_only_trans: "vset_only s t \<Longrightarrow> vset_only t u \<Longrightarrow> vset_only s u"
  by (elim vset_onlyE) (simp add: vset_only_def)

lemma vset_add_inv:
  assumes "sort_by_address K" "vset_inv s" "\<not> held s vrr_vset_lock" "vset_add K node s = Some (r, s')"
  shows "vset_inv s' \<and> vset_only s s'"
proof (cases "in_vset s node")
  case True
  then show ?thesis using assms by (simp add: vset_add_known)
next
  case False
  obtain s1 b where 1: "insert_vset_node K node s = Some s1" and 2: "vset_bump K s1 = Some (b, s')"
    using assms(4) unfolding vset_add_new [OF assms(1-3) False]
    by (auto simp: bind_eq_Some_conv split: prod.splits)
  have inv1: "vset_inv s1" by (rule vset_inv_insert [OF assms(2) False 1])
  have "vset_only s s1" using 1 by (auto simp: insert_vset_node_run vset_only_def tick_def split: if_splits)
  have tt: "vset_inv (tick (tick s1))"
    using inv1 vset_inv_io_only [OF io_only_tick2] by blast
  have "vset_inv s' \<and> vset_only s1 s'"
  proof (cases "s' = tick (tick s1)")
    case True
    then show ?thesis using tt by (simp add: vset_only_io)
  next
    case False
    then have "s' = (tick (tick s1))\<lparr>vset := del_first (bump_key K s1) (vset (tick (tick s1)))\<rparr>"
      using 2 unfolding vset_bump_run [OF assms(1) inv1] by (auto simp: tick_def split: if_splits option.splits)
    then show ?thesis using vset_inv_del_first [OF tt] by (simp add: vset_only_def tick_def)
  qed
  then show ?thesis using vset_only_trans [OF \<open>vset_only s s1\<close>] by simp
qed

section \<open>Giving up an entry\<close>

text \<open>A bump of an exactly filled set whose entries differ: the victim stands at position \<open>p 2\<close>.\<close>

lemma vset_bump_full:
  assumes "sort_by_address K" "vset_inv s" "length (vset s) = 5" "vset_size s = 5" "k < 5" "k = p 2"
    and p: "\<forall>xs. length xs = 5 \<longrightarrow> k_sort K cmp_diff xs = map (\<lambda>i. xs ! p i) [0..<5]"
    and dist: "distinct (map (\<lambda>x. (diff_left x, diff_right x)) (vset s))"
  shows "vset_bump K s = Some ((1, Some (vl_node (vset s ! k))),
    (tick (tick s))\<lparr>vset := take k (vset s) @ drop (Suc k) (vset s)\<rparr>)"
proof -
  define pair where "pair = (\<lambda>x :: vset_entry. (diff_left x, diff_right x))"
  have "diff_cells K diff n s ! 2 = diff (vset s ! k)" for diff n
    using assms(3-6) p by (simp add: diff_cells_def numeral_2_eq_2 del: upt_Suc)
  then have key: "bump_key K s = (\<lambda>x. pair x = pair (vset s ! k))"
    by (simp add: bump_key_def pair_def fun_eq_iff)
  have d: "distinct (map pair (vset s))" and len: "k < length (vset s)"
    using dist assms(3,5) by (simp_all add: pair_def)
  show ?thesis
    using vset_bump_run [OF assms(1,2)] assms(4) by (simp add: key first_match_nth [OF d len] del_first_nth [OF d len])
qed

text \<open>Node 5 with the virtual neighbours 10, 20, 30 and 40.\<close>

definition demo_vs :: vset_globals where
  "demo_vs = \<lparr>io = idle_io, held = (\<lambda>l. False), ME = 5, rt_root = \<langle>\<rangle>, pset = [], pset_size = 0,
     vset = map (\<lambda>n. \<lparr>vl_node = n, diff_left = left_of 5 n, diff_right = right_of 5 n\<rparr>) [10, 20, 30, 40], vset_size = 4\<rparr>"

lemma demo_vs_ok [simp]: "vset_inv demo_vs" "\<not> held demo_vs l"
  by (simp_all add: demo_vs_def vset_inv_def INT_MAX_def)

section \<open>Properties\<close>

text \<open>
  C20: which entry a full virtual set gives up. Because \<open>cmp_diff\<close> compares addresses, the victim of
  \<open>vset_add\<close> on a full set is the entry at one fixed position of the list, the same whatever the
  identifiers and their ring distances are; and \<open>vset_size\<close> stays at 5 although four entries remain.
\<close>

theorem vset_add_evicts_by_position:
  assumes "sort_by_address K"
  shows "\<exists>k < 5. \<forall>s :: 'z vset_globals_scheme. \<forall>node.
     \<not> held s vrr_vset_lock \<and> vset_inv s \<and> length (vset s) = 4 \<and> vset_size s = 4 \<and> \<not> in_vset s node
     \<and> k_alloc K (clock (io s))
     \<and> distinct (map (\<lambda>n. (left_of (ME s) n, right_of (ME s) n)) (node # map vl_node (vset s))) \<longrightarrow>
     (let nodes = node # map vl_node (vset s) in
        \<exists>s'. vset_add K node s = Some ((1, Some (nodes ! k)), s')
          \<and> map vl_node (vset s') = take k nodes @ drop (Suc k) nodes \<and> vset_size s' = 5)"
proof -
  obtain p where p: "bij_betw p {..<5} {..<5}"
      "\<forall>xs. length xs = 5 \<longrightarrow> k_sort K cmp_diff xs = map (\<lambda>i. xs ! p i) [0..<5]"
    by (rule sort_cmp_diff [OF assms, of 5])
  define k where "k = p 2"
  have k: "k < 5" using bij_betwE [OF p(1)] by (auto simp: k_def)
  have "\<exists>s'. vset_add K node s = Some ((1, Some ((node # map vl_node (vset s)) ! k)), s')
          \<and> map vl_node (vset s') = take k (node # map vl_node (vset s)) @ drop (Suc k) (node # map vl_node (vset s))
          \<and> vset_size s' = 5"
    if h: "\<not> held s vrr_vset_lock" "vset_inv s" "length (vset s) = 4" "vset_size s = 4" "\<not> in_vset s node"
      "k_alloc K (clock (io s))"
      "distinct (map (\<lambda>n. (left_of (ME s) n, right_of (ME s) n)) (node # map vl_node (vset s)))"
    for s :: "'z vset_globals_scheme" and node
  proof -
    define e where "e = \<lparr>vl_node = node, diff_left = left_of (ME s) node, diff_right = right_of (ME s) node\<rparr>"
    define s1 where "s1 = (tick s)\<lparr>vset := e # vset s, vset_size := 5\<rparr>"
    have ins: "insert_vset_node K node s = Some s1"
      using h(4,6) by (simp add: insert_vset_node_run s1_def e_def INT_MAX_def)
    have v1: "vset s1 = e # vset s" "vset_size s1 = 5" "length (vset s1) = 5"
      using h(3) by (simp_all add: s1_def)
    have dist: "distinct (map (\<lambda>x. (diff_left x, diff_right x)) (vset s1))"
      using h(2,7) by (auto simp: v1 e_def comp_def vset_inv_def distinct_map inj_on_def image_iff)
    have names: "map vl_node (vset s1) = node # map vl_node (vset s)" by (simp add: v1 e_def)
    show ?thesis
      unfolding names [symmetric]
      using vset_add_new [OF assms h(2,1,5)] ins v1(2,3) k
        vset_bump_full [OF assms vset_inv_insert [OF h(2,5) ins] v1(3,2) k k_def p(2) dist]
      by (simp add: take_map drop_map tick_def)
  qed
  then show ?thesis using k by (auto simp: Let_def)
qed

theorem vset_add_evicts_by_position_witness:
  "\<exists>k < 5. \<exists>s'. vset_add demo_env 50 demo_vs = Some ((1, Some ([50, 10, 20, 30, 40] ! k)), s') \<and> vset_size s' = 5"
proof -
  have sel: "map vl_node (vset demo_vs) = [10, 20, 30, 40]" "length (vset demo_vs) = 4" "vset_size demo_vs = 4" "ME demo_vs = 5"
    by (simp_all add: demo_vs_def)
  have hyp: "\<not> in_vset demo_vs 50" by (simp add: in_vset_def demo_vs_def)
  have dist: "distinct (map (\<lambda>n. (left_of (ME demo_vs) n, right_of (ME demo_vs) n)) (50 # map vl_node (vset demo_vs)))"
    unfolding sel by (simp add: left_of_def right_of_def get_diff_def Let_def)
  obtain k where "k < 5" and all: "\<forall>s :: vset_globals. \<forall>node. \<not> held s vrr_vset_lock \<and> vset_inv s \<and> length (vset s) = 4 \<and> vset_size s = 4 \<and> \<not> in_vset s node
     \<and> k_alloc demo_env (clock (io s))
     \<and> distinct (map (\<lambda>n. (left_of (ME s) n, right_of (ME s) n)) (node # map vl_node (vset s))) \<longrightarrow>
     (let nodes = node # map vl_node (vset s) in
        \<exists>s'. vset_add demo_env node s = Some ((1, Some (nodes ! k)), s')
          \<and> map vl_node (vset s') = take k nodes @ drop (Suc k) nodes \<and> vset_size s' = 5)"
    using vset_add_evicts_by_position [OF demo_env_laws(2)] by blast
  have "\<exists>s'. vset_add demo_env 50 demo_vs = Some ((1, Some ((50 # map vl_node (vset demo_vs)) ! k)), s') \<and> vset_size s' = 5"
    using all [rule_format, of demo_vs 50] hyp dist sel(2,3) by (auto simp: Let_def)
  then show ?thesis using \<open>k < 5\<close> unfolding sel by auto
qed

end
