(* ===== verification/Node_Core.thy ===== *)
theory Node_Core
  imports Virt_Set
begin

text \<open>
  The node itself (\<open>vrr_core.c\<close>): its identity and activity, the copy of the physical set by link
  class that hello packets and sysfs read (\<open>pset_state\<close>), failure detection and the activation
  timeout. \<open>vrr\<close> and \<open>pstate\<close> are pointers: \<open>None\<close> is NULL, and dereferencing it has no result.
\<close>

record core_globals = vset_globals +
  vrr :: "vrr_node option"
  pstate :: "pset_state option"

section \<open>Initialisation\<close>

text \<open>The loop over the network devices: every interface but \<open>eth0\<close> and \<open>lo\<close>, newest first.\<close>

fun add_interfaces ::
  "kenv \<Rightarrow> string list \<Rightarrow> string list \<Rightarrow> 'z core_globals_scheme \<Rightarrow> (string list \<times> 'z core_globals_scheme) option" where
  "add_interfaces K [] devs s = Some (devs, s)"
| "add_interfaces K (d # ds) devs s =
     (if d \<noteq> ''eth0'' \<and> d \<noteq> ''lo'' then
        let (ok, s) = kmalloc K 32 s in
        if ok then add_interfaces K ds (d # devs) s else None
      else add_interfaces K ds devs s)"

definition vrr_node_init :: "kenv \<Rightarrow> 'z core_globals_scheme \<Rightarrow> (int \<times> 'z core_globals_scheme) option" where
  "vrr_node_init K s =
     (let (ok, s) = kmalloc K 64 s in
      if \<not> ok then Some (-1, s\<lparr>vrr := None\<rparr>)
      else let (ok, s) = kmalloc K 64 s in
        if \<not> ok then None
        else do {
          (devs, s) \<leftarrow> add_interfaces K (k_netdevs K) [] s;
          let (r, s) = get_random_bytes K s;
          Some (0, s\<lparr>vrr := Some \<lparr>vn_id = r, vn_vset_size = 4, vn_rtable_value = 0, vn_version = 1,
                          vn_active = 0, vn_timeout = 0, vn_dev_list = devs\<rparr>\<rparr>) })"

abbreviation (input) ENOMEM :: int where "ENOMEM \<equiv> 12"

definition pset_state_init :: "kenv \<Rightarrow> 'z core_globals_scheme \<Rightarrow> int \<times> 'z core_globals_scheme" where
  "pset_state_init K s =
     (let (ok, s) = kmalloc K 652 s; (j, s) = uninit K s;
          ids = (\<lambda>b. map (\<lambda>i. j (b + i)) [0..<VRR_PSET_SIZE]);
          macs = (\<lambda>b. map (\<lambda>i. junk_mac j (b + ETH_ALEN * i)) [0..<VRR_PSET_SIZE]) in
      if \<not> ok then (- ENOMEM, s\<lparr>pstate := None\<rparr>)
      else (0, s\<lparr>pstate := Some \<lparr>l_active = ids 0, l_not_active = ids 20, pending = ids 40,
               la_mac = macs 60, lna_mac = macs 180, pending_mac = macs 300,
               la_size = 0, lna_size = 0, p_size = 0, lam_size = 0, lnam_size = 0, pm_size = 0\<rparr>\<rparr>))"

section \<open>The physical set by class\<close>

fun psu_loop ::
  "pset_entry list \<Rightarrow> nat \<Rightarrow> nat \<Rightarrow> nat \<Rightarrow> pset_state \<Rightarrow> (pset_state \<times> nat \<times> nat \<times> nat) option" where
  "psu_loop [] la_i lna_i p_i ps = Some (ps, la_i, lna_i, p_i)"
| "psu_loop (p # rest) la_i lna_i p_i ps =
     (if pl_status p = PSET_LINKED then
        if pl_active p \<noteq> 0 then do {
          ids \<leftarrow> arr_upd (l_active ps) la_i (pl_node p);
          macs \<leftarrow> arr_upd (la_mac ps) la_i (pl_mac p);
          psu_loop rest (la_i + 1) lna_i p_i (ps\<lparr>l_active := ids, la_mac := macs\<rparr>) }
        else do {
          ids \<leftarrow> arr_upd (l_not_active ps) lna_i (pl_node p);
          macs \<leftarrow> arr_upd (lna_mac ps) lna_i (pl_mac p);
          psu_loop rest la_i (lna_i + 1) p_i (ps\<lparr>l_not_active := ids, lna_mac := macs\<rparr>) }
      else if pl_status p = PSET_PENDING then do {
        ids \<leftarrow> arr_upd (pending ps) p_i (pl_node p);
        macs \<leftarrow> arr_upd (pending_mac ps) p_i (pl_mac p);
        psu_loop rest la_i lna_i (p_i + 1) (ps\<lparr>pending := ids, pending_mac := macs\<rparr>) }
      else psu_loop rest la_i lna_i p_i ps)"

definition pset_state_update :: "'z core_globals_scheme \<Rightarrow> 'z core_globals_scheme option" where
  "pset_state_update s = do {
     ps \<leftarrow> pstate s;
     (ps, la_i, lna_i, p_i) \<leftarrow> psu_loop (pset_head s) 0 0 0 ps;
     Some (s\<lparr>pstate := Some (ps\<lparr>la_size := la_i, lam_size := la_i, lna_size := lna_i, lnam_size := lna_i,
                           p_size := p_i, pm_size := p_i\<rparr>)\<rparr>)
   }"

section \<open>Failure detection and activation\<close>

text \<open>
  The loop of \<open>detect_failures\<close> standing on an entry: \<open>before\<close> is the part of the list before it, as the
  loop left it. \<open>pset_state_update\<close> sees the whole list with the entry just marked.
\<close>

fun detect_loop ::
  "pset_entry list \<Rightarrow> pset_entry list \<Rightarrow> 'z core_globals_scheme \<Rightarrow> 'z core_globals_scheme option" where
  "detect_loop before [] s = Some (s\<lparr>pset := before\<rparr>)"
| "detect_loop before (tmp # rest) s = do {
     let status = pl_status tmp;
     let (count, tmp) = pset_inc_fail_count tmp;
     (tmp, s) \<leftarrow>
       (if count \<ge> VRR_FAIL_TIMEOUT \<and> status \<noteq> PSET_FAILED then do {
          let tmp = tmp\<lparr>pl_status := PSET_FAILED\<rparr>;
          s \<leftarrow> pset_state_update (s\<lparr>pset := before @ tmp # rest\<rparr>);
          Some (tmp, s) }
        else Some (tmp, s));
     detect_loop (if count \<ge> 2 * VRR_FAIL_TIMEOUT then before else before @ [tmp]) rest s
   }"

definition detect_failures :: "'z core_globals_scheme \<Rightarrow> 'z core_globals_scheme option" where
  "detect_failures s = detect_loop [] (pset_head s) s"

definition active_timeout :: "'z core_globals_scheme \<Rightarrow> 'z core_globals_scheme option" where
  "active_timeout s = do {
     n \<leftarrow> vrr s;
     if vn_active n \<noteq> 0 then Some s
     else do {
       let n = n\<lparr>vn_timeout := vn_timeout n + 1\<rparr>;
       let n = (if vn_timeout n = VRR_ACTIVE_TIMEOUT then n\<lparr>vn_active := 1\<rparr> else n);
       Some (s\<lparr>vrr := Some n\<rparr>) }
   }"

definition reset_active_timeout :: "'z core_globals_scheme \<Rightarrow> 'z core_globals_scheme option" where
  "reset_active_timeout s = do { n \<leftarrow> vrr s; Some (s\<lparr>vrr := Some (n\<lparr>vn_timeout := 0\<rparr>)\<rparr>) }"

section \<open>Accessors\<close>

definition set_vrr_id :: "u32 \<Rightarrow> 'z core_globals_scheme \<Rightarrow> (int \<times> 'z core_globals_scheme) option" where
  "set_vrr_id vrr_id s = do { n \<leftarrow> vrr s; Some (1, s\<lparr>vrr := Some (n\<lparr>vn_id := 1\<rparr>)\<rparr>) }"

definition get_vrr_id :: "'z core_globals_scheme \<Rightarrow> u32 option" where
  "get_vrr_id s = do { n \<leftarrow> vrr s; Some (vn_id n) }"

definition get_pset_active :: "'z core_globals_scheme \<Rightarrow> u32 list option" where
  "get_pset_active s = map_option l_active (pstate s)"

definition get_pset_not_active :: "'z core_globals_scheme \<Rightarrow> u32 list option" where
  "get_pset_not_active s = map_option l_not_active (pstate s)"

definition get_pset_pending :: "'z core_globals_scheme \<Rightarrow> u32 list option" where
  "get_pset_pending s = map_option pending (pstate s)"

definition get_pset_active_size :: "'z core_globals_scheme \<Rightarrow> nat option" where
  "get_pset_active_size s = map_option (\<lambda>p. la_size p * 4) (pstate s)"

definition get_pset_not_active_size :: "'z core_globals_scheme \<Rightarrow> nat option" where
  "get_pset_not_active_size s = map_option (\<lambda>p. lna_size p * 4) (pstate s)"

definition get_pset_pending_size :: "'z core_globals_scheme \<Rightarrow> nat option" where
  "get_pset_pending_size s = map_option (\<lambda>p. p_size p * 4) (pstate s)"

definition get_pset_active_mac :: "'z core_globals_scheme \<Rightarrow> mac_addr list option" where
  "get_pset_active_mac s = map_option la_mac (pstate s)"

definition get_pset_not_active_mac :: "'z core_globals_scheme \<Rightarrow> mac_addr list option" where
  "get_pset_not_active_mac s = map_option lna_mac (pstate s)"

definition get_pset_pending_mac :: "'z core_globals_scheme \<Rightarrow> mac_addr list option" where
  "get_pset_pending_mac s = map_option pending_mac (pstate s)"

definition get_pset_active_mac_size :: "'z core_globals_scheme \<Rightarrow> nat option" where
  "get_pset_active_mac_size s = map_option (\<lambda>p. lam_size p * ETH_ALEN) (pstate s)"

definition get_pset_not_active_mac_size :: "'z core_globals_scheme \<Rightarrow> nat option" where
  "get_pset_not_active_mac_size s = map_option (\<lambda>p. lnam_size p * ETH_ALEN) (pstate s)"

definition get_pset_pending_mac_size :: "'z core_globals_scheme \<Rightarrow> nat option" where
  "get_pset_pending_mac_size s = map_option (\<lambda>p. pm_size p * ETH_ALEN) (pstate s)"

definition vrr_new_path_id :: "kenv \<Rightarrow> 'z core_globals_scheme \<Rightarrow> u32 \<times> 'z core_globals_scheme" where
  "vrr_new_path_id K s = get_random_bytes K s"

section \<open>The copy mirrors the set\<close>

definition linked_active :: "pset_entry \<Rightarrow> bool" where
  "linked_active e \<longleftrightarrow> pl_status e = PSET_LINKED \<and> pl_active e \<noteq> 0"

definition linked_inactive :: "pset_entry \<Rightarrow> bool" where
  "linked_inactive e \<longleftrightarrow> pl_status e = PSET_LINKED \<and> pl_active e = 0"

definition link_pending :: "pset_entry \<Rightarrow> bool" where
  "link_pending e \<longleftrightarrow> pl_status e = PSET_PENDING"

lemmas link_class_defs = linked_active_def linked_inactive_def link_pending_def

definition arrays_ok :: "pset_state \<Rightarrow> bool" where
  "arrays_ok ps \<longleftrightarrow> length (l_active ps) = VRR_PSET_SIZE \<and> length (l_not_active ps) = VRR_PSET_SIZE
     \<and> length (pending ps) = VRR_PSET_SIZE \<and> length (la_mac ps) = VRR_PSET_SIZE
     \<and> length (lna_mac ps) = VRR_PSET_SIZE \<and> length (pending_mac ps) = VRR_PSET_SIZE"

text \<open>One class of the copy: its size, its identifiers and its addresses are those of the set.\<close>

definition class_mirrors ::
  "nat \<Rightarrow> nat \<Rightarrow> u32 list \<Rightarrow> mac_addr list \<Rightarrow> pset_entry list \<Rightarrow> bool" where
  "class_mirrors n m ids macs es \<longleftrightarrow> n = length es \<and> m = length es \<and> take n ids = map pl_node es
     \<and> take n macs = map pl_mac es"

definition mirrors :: "pset_state \<Rightarrow> pset_entry list \<Rightarrow> bool" where
  "mirrors ps es \<longleftrightarrow>
     class_mirrors (la_size ps) (lam_size ps) (l_active ps) (la_mac ps) (filter linked_active es)
     \<and> class_mirrors (lna_size ps) (lnam_size ps) (l_not_active ps) (lna_mac ps) (filter linked_inactive es)
     \<and> class_mirrors (p_size ps) (pm_size ps) (pending ps) (pending_mac ps) (filter link_pending es)"

definition fits :: "pset_entry list \<Rightarrow> bool" where
  "fits es \<longleftrightarrow> length (filter linked_active es) \<le> VRR_PSET_SIZE
     \<and> length (filter linked_inactive es) \<le> VRR_PSET_SIZE \<and> length (filter link_pending es) \<le> VRR_PSET_SIZE"

definition pstate_ok :: "'z core_globals_scheme \<Rightarrow> bool" where
  "pstate_ok s \<longleftrightarrow> (\<exists>ps. pstate s = Some ps \<and> arrays_ok ps \<and> mirrors ps (pset s))"

definition node_ok :: "'z core_globals_scheme \<Rightarrow> bool" where
  "node_ok s \<longleftrightarrow> (\<exists>n. vrr s = Some n \<and> vn_id n = ME s \<and> vn_active n \<in> {0, 1}
     \<and> 0 \<le> vn_timeout n \<and> vn_timeout n \<le> VRR_ACTIVE_TIMEOUT
     \<and> (vn_active n = 0 \<longrightarrow> vn_timeout n < VRR_ACTIVE_TIMEOUT))"

definition core_inv :: "'z core_globals_scheme \<Rightarrow> bool" where
  "core_inv s \<longleftrightarrow> pstate_ok s \<and> node_ok s"

text \<open>The loop stores the three classes one after the other into their arrays, or overruns one.\<close>

lemma psu_loop_eq:
  assumes "arrays_ok ps" "a \<le> 20" "b \<le> 20" "c \<le> 20"
  shows "psu_loop es a b c ps =
    (let A = filter linked_active es; B = filter linked_inactive es; C = filter link_pending es in
     if a + length A \<le> VRR_PSET_SIZE \<and> b + length B \<le> VRR_PSET_SIZE \<and> c + length C \<le> VRR_PSET_SIZE
     then Some (ps\<lparr>l_active := splice_at (l_active ps) a (map pl_node A),
                   l_not_active := splice_at (l_not_active ps) b (map pl_node B),
                   pending := splice_at (pending ps) c (map pl_node C),
                   la_mac := splice_at (la_mac ps) a (map pl_mac A),
                   lna_mac := splice_at (lna_mac ps) b (map pl_mac B),
                   pending_mac := splice_at (pending_mac ps) c (map pl_mac C)\<rparr>,
                a + length A, b + length B, c + length C)
     else None)"
  using assms
proof (induction es arbitrary: a b c ps)
  case (Cons e es)
  consider "linked_active e" | "linked_inactive e" | "link_pending e"
    | "\<not> linked_active e \<and> \<not> linked_inactive e \<and> \<not> link_pending e" by blast
  then show ?case
    using Cons.prems
    by cases (auto simp: Cons.IH arrays_ok_def link_class_defs arr_upd_def splice_at_Cons Let_def)
qed (simp add: Let_def)

lemma class_mirrors_splice:
  "length es \<le> VRR_PSET_SIZE \<Longrightarrow> length ids = VRR_PSET_SIZE \<Longrightarrow> length macs = VRR_PSET_SIZE \<Longrightarrow>
     class_mirrors (length es) (length es) (splice_at ids 0 (map pl_node es)) (splice_at macs 0 (map pl_mac es)) es"
  by (simp add: class_mirrors_def splice_at_def)

definition copy_of :: "pset_state \<Rightarrow> pset_entry list \<Rightarrow> pset_state" where
  "copy_of ps es =
    (let A = filter linked_active es; B = filter linked_inactive es; C = filter link_pending es in
     ps\<lparr>l_active := splice_at (l_active ps) 0 (map pl_node A), l_not_active := splice_at (l_not_active ps) 0 (map pl_node B),
        pending := splice_at (pending ps) 0 (map pl_node C), la_mac := splice_at (la_mac ps) 0 (map pl_mac A),
        lna_mac := splice_at (lna_mac ps) 0 (map pl_mac B), pending_mac := splice_at (pending_mac ps) 0 (map pl_mac C),
        la_size := length A, lam_size := length A, lna_size := length B, lnam_size := length B,
        p_size := length C, pm_size := length C\<rparr>)"

lemma copy_of_ok: "arrays_ok ps \<Longrightarrow> fits es \<Longrightarrow> arrays_ok (copy_of ps es) \<and> mirrors (copy_of ps es) es"
  by (simp add: copy_of_def Let_def fits_def mirrors_def arrays_ok_def length_splice_at class_mirrors_splice)

lemma pset_state_update_run:
  assumes "pstate s = Some ps" "arrays_ok ps"
  shows "pset_state_update s =
    (if fits (pset s) then Some (s\<lparr>pstate := Some (copy_of ps (pset s))\<rparr>) else None)"
  using assms by (auto simp: pset_state_update_def pset_head_def psu_loop_eq Let_def fits_def copy_of_def)

lemma mirrors_fits: "arrays_ok ps \<Longrightarrow> mirrors ps es \<Longrightarrow> fits es"
  by (auto simp: mirrors_def class_mirrors_def arrays_ok_def fits_def dest!: arg_cong [of _ _ length])

text \<open>The copy depends on the class, the identifier and the address of the entries only.\<close>

definition link_data :: "pset_entry \<Rightarrow> u32 \<times> mac_addr \<times> bool \<times> bool \<times> bool" where
  "link_data e = (pl_node e, pl_mac e, linked_active e, linked_inactive e, link_pending e)"

lemma link_data_filter:
  assumes "\<And>e f. link_data e = link_data f \<Longrightarrow> P e = P f" "map link_data es = map link_data fs"
  shows "map pl_node (filter P es) = map pl_node (filter P fs)" "map pl_mac (filter P es) = map pl_mac (filter P fs)"
    "length (filter P es) = length (filter P fs)"
proof -
  have "length es = length fs" using assms(2) by (rule map_eq_imp_length_eq)
  then have "map pl_node (filter P es) = map pl_node (filter P fs) \<and> map pl_mac (filter P es) = map pl_mac (filter P fs)"
    using assms(2)
  proof (induction es fs rule: list_induct2)
    case (Cons e es f fs)
    then have "link_data e = link_data f" by simp
    then have "pl_node e = pl_node f" "pl_mac e = pl_mac f" "P e = P f"
      using assms(1) [of e f] by (simp_all add: link_data_def)
    with Cons show ?case by simp
  qed simp
  then show "map pl_node (filter P es) = map pl_node (filter P fs)" "map pl_mac (filter P es) = map pl_mac (filter P fs)"
    by simp_all
  then show "length (filter P es) = length (filter P fs)" by (metis length_map)
qed

lemma mirrors_cong:
  assumes "map link_data es = map link_data fs"
  shows "mirrors ps es = mirrors ps fs" "fits es = fits fs"
proof -
  have cls: "link_data e = link_data f \<Longrightarrow> linked_active e = linked_active f"
    "link_data e = link_data f \<Longrightarrow> linked_inactive e = linked_inactive f"
    "link_data e = link_data f \<Longrightarrow> link_pending e = link_pending f" for e f
    by (simp_all add: link_data_def)
  note eqs = link_data_filter [OF cls(1) assms] link_data_filter [OF cls(2) assms] link_data_filter [OF cls(3) assms]
  show "mirrors ps es = mirrors ps fs" unfolding mirrors_def class_mirrors_def by (simp add: eqs)
  show "fits es = fits fs" unfolding fits_def by (simp add: eqs)
qed

lemma mirrors_drop_failed:
  "pl_status e = PSET_FAILED \<Longrightarrow> mirrors ps (xs @ e # ys) = mirrors ps (xs @ ys)"
  by (simp add: mirrors_def link_class_defs)

lemma fits_fail: "fits (xs @ e # ys) \<Longrightarrow> pl_status f = PSET_FAILED \<Longrightarrow> fits (xs @ f # ys)"
  by (auto simp: fits_def link_class_defs split: if_splits)

section \<open>What failure detection does\<close>

text \<open>One period without a packet from the neighbour, and the entries that stay in the set.\<close>

definition age :: "pset_entry \<Rightarrow> pset_entry" where
  "age e = (let c = fail_count e + 1 in
     e\<lparr>fail_count := c, pl_status := (if c \<ge> VRR_FAIL_TIMEOUT then PSET_FAILED else pl_status e)\<rparr>)"

definition survivors :: "pset_entry list \<Rightarrow> pset_entry list" where
  "survivors es = filter (\<lambda>e. fail_count e < 2 * VRR_FAIL_TIMEOUT) (map age es)"

lemma age_sel [simp]: "pl_node (age e) = pl_node e" "pl_mac (age e) = pl_mac e" "pl_active (age e) = pl_active e"
  "fail_count (age e) = fail_count e + 1"
  by (simp_all add: age_def Let_def)

text \<open>One turn of the loop: the copy still mirrors the list with the entry aged.\<close>

lemma detect_turn:
  assumes "pstate s = Some ps" "arrays_ok ps" "mirrors ps (before @ tmp # rest)"
  obtains ps' b where "detect_loop before (tmp # rest) s =
      detect_loop (if fail_count (age tmp) \<ge> 2 * VRR_FAIL_TIMEOUT then before else before @ [age tmp]) rest
        (s\<lparr>pset := b, pstate := Some ps'\<rparr>)"
    "arrays_ok ps'" "mirrors ps' (before @ age tmp # rest)"
proof (cases "fail_count tmp + 1 \<ge> VRR_FAIL_TIMEOUT \<and> pl_status tmp \<noteq> PSET_FAILED")
  case True
  have "fits (before @ age tmp # rest)"
    using mirrors_fits [OF assms(2,3)] True by (auto simp: age_def elim: fits_fail)
  moreover have "age tmp = tmp\<lparr>fail_count := fail_count tmp + 1, pl_status := PSET_FAILED\<rparr>"
    using True by (simp add: age_def)
  ultimately show ?thesis
    using that [of "copy_of ps (before @ age tmp # rest)" "before @ age tmp # rest"] True assms(1,2)
      copy_of_ok [OF assms(2)]
    by (simp add: pset_inc_fail_count_def Let_def pset_state_update_run)
next
  case False
  have e: "age tmp = tmp\<lparr>fail_count := fail_count tmp + 1\<rparr>"
    using False by (auto simp: age_def Let_def)
  have "mirrors ps (before @ age tmp # rest)"
    using assms(3) mirrors_cong(1) [of "before @ tmp # rest" "before @ age tmp # rest" ps]
    by (simp add: e link_data_def link_class_defs)
  moreover have "s\<lparr>pset := pset s, pstate := Some ps\<rparr> = s" using assms(1) by simp
  ultimately show ?thesis
    using that [of ps "pset s"] False assms(2) by (auto simp: pset_inc_fail_count_def e Let_def)
qed

lemma detect_loop_run:
  assumes "pstate s = Some ps" "arrays_ok ps" "mirrors ps (before @ rest)"
  shows "\<exists>ps'. detect_loop before rest s = Some (s\<lparr>pset := before @ survivors rest, pstate := Some ps'\<rparr>)
     \<and> arrays_ok ps' \<and> mirrors ps' (before @ survivors rest)"
  using assms
proof (induction rest arbitrary: before s ps)
  case Nil
  then show ?case by (auto simp: survivors_def intro!: exI [of _ ps])
next
  case (Cons tmp rest)
  obtain ps' b where 1: "detect_loop before (tmp # rest) s =
      detect_loop (if fail_count (age tmp) \<ge> 2 * VRR_FAIL_TIMEOUT then before else before @ [age tmp]) rest
        (s\<lparr>pset := b, pstate := Some ps'\<rparr>)"
    and 2: "arrays_ok ps'" "mirrors ps' (before @ age tmp # rest)"
    by (rule detect_turn [OF Cons.prems])
  show ?case
  proof (cases "fail_count (age tmp) \<ge> 2 * VRR_FAIL_TIMEOUT")
    case True
    then have "(4 :: u32) \<le> fail_count tmp + 1"
      using order_trans [of "4 :: u32" 8 "fail_count tmp + 1"] by simp
    then have "pl_status (age tmp) = PSET_FAILED" by (simp add: age_def)
    then have "mirrors ps' (before @ rest)" using 2(2) by (simp add: mirrors_drop_failed)
    with Cons.IH [of "s\<lparr>pset := b, pstate := Some ps'\<rparr>" ps' before] 2(1) True 1 show ?thesis
      by (auto simp: survivors_def not_less)
  next
    case False
    with Cons.IH [of "s\<lparr>pset := b, pstate := Some ps'\<rparr>" ps' "before @ [age tmp]"] 2 1 show ?thesis
      by (auto simp: survivors_def not_le)
  qed
qed

lemma detect_failures_run:
  assumes "pstate_ok s"
  obtains ps' where "detect_failures s = Some (s\<lparr>pset := survivors (pset s), pstate := Some ps'\<rparr>)"
    "arrays_ok ps'" "mirrors ps' (survivors (pset s))"
  using detect_loop_run [where before = "[]" and rest = "pset s" and s = s] assms that
  unfolding detect_failures_def pset_head_def pstate_ok_def by fastforce

lemma neighbour_survivors:
  assumes "distinct (map pl_node es)"
  shows "first_match (\<lambda>e. pl_node e = x) (survivors es) =
    (case first_match (\<lambda>e. pl_node e = x) es of None \<Rightarrow> None
     | Some e \<Rightarrow> if fail_count e + 1 < 2 * VRR_FAIL_TIMEOUT then Some (age e) else None)"
  using assms
proof (induction es)
  case (Cons e es)
  have "first_match (\<lambda>f. pl_node f = pl_node e) es = None"
    using Cons.prems by (simp add: pl.lookup_None_iff)
  with Cons show ?case by (auto simp: survivors_def)
qed (simp add: survivors_def)

lemma survivors_ok: "\<forall>e \<in> set es. entry_ok e \<Longrightarrow> e \<in> set (survivors es) \<Longrightarrow> entry_ok e"
  by (auto simp: survivors_def entry_ok_def age_def Let_def split: if_splits)

lemma detect_failures_inv:
  assumes "pset_inv s" "core_inv s"
  obtains s' where "detect_failures s = Some s'" "pset_inv s'" "core_inv s'"
    "\<exists>ps. s' = s\<lparr>pset := survivors (pset s), pstate := Some ps\<rparr>"
proof -
  obtain ps' where run: "detect_failures s = Some (s\<lparr>pset := survivors (pset s), pstate := Some ps'\<rparr>)"
      "arrays_ok ps'" "mirrors ps' (survivors (pset s))"
    using assms(2) by (auto simp: core_inv_def elim: detect_failures_run)
  have "distinct (map pl_node (survivors (pset s)))"
    using assms(1) unfolding survivors_def pset_inv_def
    by (intro distinct_map_filter) (simp add: comp_def)
  moreover have "length (survivors (pset s)) \<le> length (pset s)"
    unfolding survivors_def by (metis length_filter_le length_map)
  ultimately show ?thesis
    using that [OF run(1)] assms run(2,3) survivors_ok
    by (auto simp: pset_inv_def core_inv_def pstate_ok_def node_ok_def)
qed

section \<open>Activation\<close>

definition vrr_only :: "'z core_globals_scheme \<Rightarrow> 'z core_globals_scheme \<Rightarrow> bool" where
  "vrr_only s t \<longleftrightarrow> t = s\<lparr>vrr := vrr t\<rparr>"

lemma vrr_onlyI [simp]: "vrr_only s s" "vrr_only s (s\<lparr>vrr := n\<rparr>)"
  by (simp_all add: vrr_only_def)

lemma core_inv_vrr:
  "core_inv (s\<lparr>vrr := Some n\<rparr>) \<longleftrightarrow> pstate_ok s \<and> vn_id n = ME s \<and> vn_active n \<in> {0, 1}
     \<and> 0 \<le> vn_timeout n \<and> vn_timeout n \<le> VRR_ACTIVE_TIMEOUT
     \<and> (vn_active n = 0 \<longrightarrow> vn_timeout n < VRR_ACTIVE_TIMEOUT)"
  by (simp add: core_inv_def node_ok_def pstate_ok_def)

lemma active_timeout_inv:
  assumes "core_inv s"
  obtains s' where "active_timeout s = Some s'" "core_inv s'" "vrr_only s s'"
proof -
  obtain n where n: "vrr s = Some n" using assms by (auto simp: core_inv_def node_ok_def)
  show ?thesis
  proof (cases "vn_active n = 0")
    case True
    define m where "m = (let n = n\<lparr>vn_timeout := vn_timeout n + 1\<rparr> in
      if vn_timeout n = VRR_ACTIVE_TIMEOUT then n\<lparr>vn_active := 1\<rparr> else n)"
    have "active_timeout s = Some (s\<lparr>vrr := Some m\<rparr>)"
      using n True by (simp add: active_timeout_def m_def Let_def)
    moreover have "core_inv (s\<lparr>vrr := Some m\<rparr>)"
      using assms n True by (auto simp: core_inv_vrr core_inv_def [of s] node_ok_def m_def Let_def)
    ultimately show ?thesis using that by simp
  next
    case False
    then show ?thesis using that [of s] assms n by (simp add: active_timeout_def)
  qed
qed

lemma reset_active_timeout_inv:
  assumes "core_inv s"
  obtains s' where "reset_active_timeout s = Some s'" "core_inv s'" "vrr_only s s'"
proof -
  obtain n where n: "vrr s = Some n" using assms by (auto simp: core_inv_def node_ok_def)
  have "core_inv (s\<lparr>vrr := Some (n\<lparr>vn_timeout := 0\<rparr>)\<rparr>)"
    using assms n by (auto simp: core_inv_vrr core_inv_def [of s] node_ok_def)
  then show ?thesis using that n by (simp add: reset_active_timeout_def)
qed

text \<open>Running an operation of the periodic work \<open>n\<close> times.\<close>

fun times :: "nat \<Rightarrow> ('s \<Rightarrow> 's option) \<Rightarrow> 's \<Rightarrow> 's option" where
  "times 0 f s = Some s"
| "times (Suc n) f s = do { s \<leftarrow> times n f s; f s }"

lemma times_age:
  assumes "pset_inv s" "core_inv s" "neighbour s x = Some e" "fail_count e = 0"
  shows "\<exists>s'. times n detect_failures s = Some s' \<and> pset_inv s' \<and> core_inv s'
     \<and> (if n < 8 then \<exists>e'. neighbour s' x = Some e' \<and> fail_count e' = of_nat n
            \<and> pl_status e' = (if n < 4 then pl_status e else PSET_FAILED)
        else neighbour s' x = None)"
proof (induction n)
  case 0
  then show ?case using assms by simp
next
  case (Suc n)
  then obtain s1 where s1: "times n detect_failures s = Some s1" "pset_inv s1" "core_inv s1"
    and hyp: "if n < 8 then \<exists>e'. neighbour s1 x = Some e' \<and> fail_count e' = of_nat n
            \<and> pl_status e' = (if n < 4 then pl_status e else PSET_FAILED) else neighbour s1 x = None" by blast
  obtain s2 where s2: "detect_failures s1 = Some s2" "pset_inv s2" "core_inv s2"
    and p2: "pset s2 = survivors (pset s1)"
    by (rule detect_failures_inv [OF s1(2,3)]) auto
  have nb: "neighbour s2 x = (case neighbour s1 x of None \<Rightarrow> None
     | Some e \<Rightarrow> if fail_count e + 1 < 2 * VRR_FAIL_TIMEOUT then Some (age e) else None)"
    using neighbour_survivors [of "pset s1" x] s1(2) by (simp add: neighbour_def p2 pset_inv_def)
  show ?case
  proof (cases "n < 8")
    case True
    then obtain e' where e': "neighbour s1 x = Some e'" "fail_count e' = of_nat n"
        "pl_status e' = (if n < 4 then pl_status e else PSET_FAILED)" using hyp by auto
    have cnt: "fail_count e' + 1 = of_nat (Suc n)" by (simp add: e'(2))
    have lt: "fail_count e' + 1 < 8 \<longleftrightarrow> Suc n < 8"
      unfolding cnt using of_nat_u32_less [of "Suc n" 8] True by simp
    have ge: "4 \<le> fail_count e' + 1 \<longleftrightarrow> 4 \<le> Suc n"
      unfolding cnt using of_nat_u32_le [of 4 "Suc n"] True by simp
    have st: "pl_status (age e') = (if Suc n < 4 then pl_status e else PSET_FAILED)"
      unfolding age_def Let_def by (simp add: ge e'(3))
    have run: "times (Suc n) detect_failures s = Some s2" using s1(1) s2(1) by simp
    have nb2: "neighbour s2 x = (if Suc n < 8 then Some (age e') else None)"
      unfolding nb e'(1) by (simp add: lt)
    have "fail_count (age e') = of_nat (Suc n)" using cnt by simp
    then show ?thesis using run s2(2,3) nb2 st by (cases "Suc n < 8") simp_all
  next
    case False
    then show ?thesis using s1(1) s2 nb hyp by simp
  qed
qed

text \<open>Node 5, not active yet, with a linked active neighbour 7 and a pending neighbour 8.\<close>

definition demo_entry :: "u32 \<Rightarrow> u32 \<Rightarrow> pset_entry" where
  "demo_entry x st = \<lparr>pl_node = x, pl_status = st, pl_active = 1, pl_mac = [2, 0, 0, 0, 0, ucast x], fail_count = 0\<rparr>"

definition demo_ps :: pset_state where
  "demo_ps = \<lparr>l_active = 7 # replicate 19 0, l_not_active = replicate 20 0, pending = 8 # replicate 19 0,
     la_mac = [2, 0, 0, 0, 0, 7] # replicate 19 [], lna_mac = replicate 20 [], pending_mac = [2, 0, 0, 0, 0, 8] # replicate 19 [],
     la_size = 1, lna_size = 0, p_size = 1, lam_size = 1, lnam_size = 0, pm_size = 1\<rparr>"

definition demo_core :: core_globals where
  "demo_core = \<lparr>io = idle_io, held = (\<lambda>l. False), ME = 5, rt_root = \<langle>\<rangle>,
     pset = [demo_entry 7 PSET_LINKED, demo_entry 8 PSET_PENDING], pset_size = 2, vset = [], vset_size = 0,
     vrr = Some \<lparr>vn_id = 5, vn_vset_size = 4, vn_rtable_value = 0, vn_version = 1, vn_active = 0, vn_timeout = 0,
       vn_dev_list = [''wlan0'']\<rparr>,
     pstate = Some demo_ps\<rparr>"

lemma demo_ps_ok [simp]: "arrays_ok demo_ps" "mirrors demo_ps [demo_entry 7 PSET_LINKED, demo_entry 8 PSET_PENDING]"
  by (simp_all add: arrays_ok_def demo_ps_def mirrors_def class_mirrors_def demo_entry_def link_class_defs)

lemma demo_core_ok [simp]: "pset_inv demo_core" "core_inv demo_core"
proof -
  show "pset_inv demo_core" by (simp add: demo_core_def pset_inv_def entry_ok_def demo_entry_def INT_MAX_def)
  show "core_inv demo_core" by (simp add: demo_core_def core_inv_def pstate_ok_def node_ok_def)
qed

section \<open>Properties\<close>

text \<open>
  C19: \<open>pset_state_update\<close> copies the physical set by class: afterwards the first \<open>la_size\<close> cells of
  \<open>l_active\<close> and \<open>la_mac\<close> are the identifiers and addresses of the linked active neighbours in list
  order, likewise for the other two classes, and each pair of sizes agrees. It has no defined
  result exactly when a class has more than 20 members, which nothing in the module prevents.
\<close>

theorem pset_state_update_mirrors:
  assumes "pstate s = Some ps" "arrays_ok ps"
  shows "pset_state_update s = (if fits (pset s) then Some (s\<lparr>pstate := Some (copy_of ps (pset s))\<rparr>) else None)
    \<and> (fits (pset s) \<longrightarrow> arrays_ok (copy_of ps (pset s)) \<and> mirrors (copy_of ps (pset s)) (pset s))"
  using pset_state_update_run [OF assms] copy_of_ok [OF assms(2)] by simp

theorem pset_state_update_mirrors_witness:
  "\<exists>t. pset_state_update demo_core = Some t \<and> mirrors (the (pstate t)) (pset demo_core)"
proof -
  have "pstate demo_core = Some demo_ps" "fits (pset demo_core)"
    by (simp_all add: demo_core_def fits_def demo_entry_def link_class_defs)
  then show ?thesis using pset_state_update_mirrors [of demo_core demo_ps] by simp
qed

text \<open>
  C11: failure detection. A neighbour that stays silent keeps its link status for three periods, is
  marked failed in the fourth and removed in the eighth; every period of \<open>detect_failures\<close> completes
  and leaves the set and its copy consistent.
\<close>

theorem silent_neighbour_fails:
  assumes "pset_inv s" "core_inv s" "neighbour s x = Some e" "fail_count e = 0"
  shows "\<exists>s'. times n detect_failures s = Some s' \<and> pset_inv s' \<and> core_inv s'
     \<and> link_status s' x = (if n < 4 then pl_status e else if n < 8 then PSET_FAILED else PSET_UNKNOWN)"
  using times_age [OF assms, of n] by (force simp: link_status_def split: if_splits)

theorem silent_neighbour_fails_witness:
  "\<exists>s'. times 5 detect_failures demo_core = Some s' \<and> link_status s' 7 = PSET_FAILED"
proof -
  have "neighbour demo_core 7 = Some (demo_entry 7 PSET_LINKED)" "fail_count (demo_entry 7 PSET_LINKED) = 0"
    by (simp_all add: demo_core_def neighbour_def demo_entry_def)
  then show ?thesis using silent_neighbour_fails [of demo_core 7 "demo_entry 7 PSET_LINKED" 5] by auto
qed

end
