(* ===== verification/Transmit.thy ===== *)
theory Transmit
  imports Node_Core
begin

text \<open>
  Handing a packet to the devices (\<open>vrr_output.c\<close>) and putting the VRR header in front of it
  (\<open>build_header\<close> of \<open>vrr_core.c\<close>). \<open>vrr_output\<close> sends one clone per interface of the node and drops
  its own reference; a frame is what \<open>dev_hard_header\<close> and \<open>dev_queue_xmit\<close> put on the wire.
\<close>

abbreviation (input) NET_XMIT_SUCCESS :: int where "NET_XMIT_SUCCESS \<equiv> 0"
abbreviation (input) NET_XMIT_DROP :: int where "NET_XMIT_DROP \<equiv> 1"

section \<open>Operations\<close>

definition vrr_get_node :: "'z core_globals_scheme \<Rightarrow> vrr_node option" where
  "vrr_get_node s = vrr s"

text \<open>\<open>skb_clone\<close> allocates; the clone is consumed by \<open>dev_queue_xmit\<close>, so only its success matters here.\<close>

definition skb_clone :: "kenv \<Rightarrow> 'z kern_scheme \<Rightarrow> bool \<times> 'z kern_scheme" where
  "skb_clone K s = (k_alloc K (clock (io s)), tick s)"

text \<open>The loop of \<open>vrr_output\<close> over \<open>dev_list\<close>; \<open>dev_put\<close> is inside the test of the clone, as in the source.\<close>

fun output_loop :: "kenv \<Rightarrow> u8 list \<Rightarrow> mac_addr \<Rightarrow> string list \<Rightarrow> 'z kern_scheme \<Rightarrow> 'z kern_scheme" where
  "output_loop K data mac [] s = s"
| "output_loop K data mac (dev_name # rest) s =
     (case k_dev K dev_name of
        None \<Rightarrow> output_loop K data mac rest s
      | Some dev_addr \<Rightarrow>
          let s = dev_get dev_name s;
              (clone, s) = skb_clone K s;
              s = (if clone
                   then dev_put dev_name (dev_queue_xmit \<lparr>fr_dev = dev_name, fr_dest = mac, fr_src = dev_addr,
                          fr_proto = ETH_P_VRR, fr_data = data\<rparr> s)
                   else s)
          in output_loop K data mac rest s)"

definition vrr_output :: "kenv \<Rightarrow> sk_buff \<Rightarrow> u8 \<Rightarrow> 'z core_globals_scheme \<Rightarrow> (int \<times> 'z core_globals_scheme) option" where
  "vrr_output K skb type s = do {
     vh \<leftarrow> parse_header (skb_data skb);
     node \<leftarrow> vrr_get_node s;
     let s = output_loop K (skb_data skb) (dest_mac vh) (vn_dev_list node) s;
     Some (NET_XMIT_SUCCESS, kfree_skb (skb_id skb) s)
   }"

definition build_header ::
  "kenv \<Rightarrow> sk_buff \<Rightarrow> vrr_packet \<Rightarrow> 'z core_globals_scheme \<Rightarrow> ((int \<times> sk_buff) \<times> 'z core_globals_scheme) option" where
  "build_header K skb vpkt s = do {
     let (junk, s) = uninit K s;
     node \<leftarrow> vrr s;
     let header = \<lparr>vrr_version = vn_version node, pkt_type = pk_pkt_type vpkt, protocol = PF_VRR,
       data_len = pk_data_len vpkt, free_byte = 0, h_csum = 0, src_id = pk_src vpkt, dest_id = pk_dst vpkt,
       dest_mac = (if pk_pkt_type vpkt = VRR_HELLO then replicate ETH_ALEN (- 1) else pk_dest_mac vpkt)\<rparr>;
     Some ((0, skb\<lparr>skb_data := header_bytes (\<lambda>i. ucast (junk i)) header @ skb_data skb\<rparr>), s)
   }"

definition rmv_vrr_header :: "sk_buff \<Rightarrow> int" where
  "rmv_vrr_header skb = 1"

definition vrr_forward ::
  "kenv \<Rightarrow> sk_buff \<Rightarrow> vrr_header \<Rightarrow> 'z core_globals_scheme \<Rightarrow> (int \<times> 'z core_globals_scheme) option" where
  "vrr_forward K skb vh s = do {
     (nh, s) \<leftarrow> rt_get_next (dest_id vh) s;
     if nh = 0 then Some (NET_XMIT_DROP, s)
     else do {
       (nh_mac, s) \<leftarrow> pset_get_mac nh s;
       case nh_mac of
         None \<Rightarrow> Some (NET_XMIT_DROP, s)
       | Some m \<Rightarrow> vrr_output K (skb\<lparr>skb_data := set_dest_mac m (skb_data skb)\<rparr>) VRR_DATA s }
   }"

definition vrr_forward_setup_req ::
  "kenv \<Rightarrow> sk_buff \<Rightarrow> vrr_header \<Rightarrow> u32 \<Rightarrow> 'z core_globals_scheme \<Rightarrow> (int \<times> 'z core_globals_scheme) option" where
  "vrr_forward_setup_req K skb vh nh s = do {
     (dmac, s) \<leftarrow> pset_get_mac nh s;
     case dmac of
       None \<Rightarrow> Some (0, s)
     | Some m \<Rightarrow> vrr_output K (skb\<lparr>skb_data := set_dest_mac m (skb_data skb)\<rparr>) VRR_SETUP_REQ s
   }"

section \<open>What is sent\<close>

text \<open>
  The record of a transmission from \<open>s\<close> to \<open>t\<close>: frames \<open>fs\<close> were queued, all with the given bytes and
  Ethernet destination; and with memory for every clone there is one for each existing device.
\<close>

definition frames_of :: "u8 list \<Rightarrow> mac_addr \<Rightarrow> string list \<Rightarrow> frame list \<Rightarrow> bool" where
  "frames_of data mac devs fs \<longleftrightarrow>
     (\<forall>f \<in> set fs. fr_data f = data \<and> fr_dest f = mac \<and> fr_proto f = ETH_P_VRR \<and> fr_dev f \<in> set devs)"

definition live :: "kenv \<Rightarrow> string list \<Rightarrow> string list" where
  "live K devs = filter (\<lambda>d. k_dev K d \<noteq> None) devs"

definition sent :: "kenv \<Rightarrow> u8 list \<Rightarrow> mac_addr \<Rightarrow> string list \<Rightarrow> 'z kern_scheme \<Rightarrow> 'z kern_scheme \<Rightarrow> bool" where
  "sent K data mac devs s t \<longleftrightarrow>
     (\<exists>fs. tx (io t) = tx (io s) @ fs \<and> frames_of data mac devs fs
        \<and> ((\<forall>n. k_alloc K n) \<longrightarrow> map fr_dev fs = live K devs))"

lemma io_only_output_loop: "io_only s (output_loop K data mac devs s)"
proof (induction devs arbitrary: s)
  case (Cons d devs)
  have "io_only s (dev_get d s)" "io_only (dev_get d s) (tick (dev_get d s))" by simp_all
  then have 1: "io_only s (tick (dev_get d s))" by (rule io_only_trans)
  have 2: "io_only u (dev_put d (dev_queue_xmit f u))" for u :: "'a kern_scheme" and f
    by (rule io_only_trans [of _ "dev_queue_xmit f u"]) simp_all
  show ?case
    using Cons.IH io_only_trans [OF 1] io_only_trans [OF io_only_trans [OF 1 2]]
    by (auto simp: skb_clone_def Let_def split: option.split)
qed simp

lemma kern_tx_simps [simp]:
  "tx (io (tick s)) = tx (io s)" "tx (io (dev_get d s)) = tx (io s)" "tx (io (dev_put d s)) = tx (io s)"
  "tx (io (kfree_skb i s)) = tx (io s)" "tx (io (dev_queue_xmit f s)) = tx (io s) @ [f]"
  "skb_users (io (tick s)) = skb_users (io s)" "skb_users (io (dev_get d s)) = skb_users (io s)"
  "skb_users (io (dev_put d s)) = skb_users (io s)" "skb_users (io (dev_queue_xmit f s)) = skb_users (io s)"
  "skb_users (io (kfree_skb i s)) = (skb_users (io s))(i := skb_users (io s) i - 1)"
  "dev_refs (io (tick s)) = dev_refs (io s)" "dev_refs (io (kfree_skb i s)) = dev_refs (io s)"
  "dev_refs (io (dev_queue_xmit f s)) = dev_refs (io s)"
  "dev_refs (io (dev_get d s)) = (dev_refs (io s))(d := dev_refs (io s) d + 1)"
  "dev_refs (io (dev_put d s)) = (dev_refs (io s))(d := dev_refs (io s) d - 1)"
  by (simp_all add: tick_def dev_get_def dev_put_def kfree_skb_def dev_queue_xmit_def)

lemma sent_output_loop: "sent K data mac devs s (output_loop K data mac devs s)"
proof (induction devs arbitrary: s)
  case (Cons d devs)
  show ?case
  proof (cases "k_dev K d")
    case None
    obtain fs where "tx (io (output_loop K data mac devs s)) = tx (io s) @ fs" "frames_of data mac devs fs"
        "(\<forall>n. k_alloc K n) \<longrightarrow> map fr_dev fs = live K devs"
      using Cons.IH [of s] by (auto simp: sent_def)
    then show ?thesis using None by (auto simp: sent_def frames_of_def live_def intro!: exI [of _ fs])
  next
    case (Some a)
    define f where "f = \<lparr>fr_dev = d, fr_dest = mac, fr_src = a, fr_proto = ETH_P_VRR, fr_data = data\<rparr>"
    define ok where "ok \<longleftrightarrow> k_alloc K (clock (io (dev_get d s)))"
    define u where "u = (if ok then dev_put d (dev_queue_xmit f (tick (dev_get d s))) else tick (dev_get d s))"
    have step: "output_loop K data mac (d # devs) s = output_loop K data mac devs u"
      using Some by (simp add: skb_clone_def u_def f_def ok_def Let_def)
    obtain fs where fs: "tx (io (output_loop K data mac devs u)) = tx (io u) @ fs" "frames_of data mac devs fs"
        "(\<forall>n. k_alloc K n) \<longrightarrow> map fr_dev fs = live K devs"
      using Cons.IH [of u] by (auto simp: sent_def)
    have "tx (io u) = tx (io s) @ (if ok then [f] else [])" by (simp add: u_def)
    then show ?thesis
      unfolding step sent_def using fs Some
      by (intro exI [of _ "(if ok then [f] else []) @ fs"]) (auto simp: frames_of_def live_def f_def ok_def)
  qed
qed (simp add: sent_def frames_of_def live_def)

lemma output_loop_users: "skb_users (io (output_loop K data mac devs s)) = skb_users (io s)"
  by (induction devs arbitrary: s) (simp_all add: skb_clone_def Let_def split: option.split)

text \<open>Device references: never lost, and each one a failed clone leaves behind is still held.\<close>

lemma output_loop_refs_ge: "dev_refs (io s) d \<le> dev_refs (io (output_loop K data mac devs s)) d"
proof (induction devs arbitrary: s)
  case (Cons e devs)
  show ?case
  proof (cases "k_dev K e")
    case None
    then show ?thesis using Cons.IH [of s] by simp
  next
    case (Some a)
    show ?thesis
      using Some by (auto simp: skb_clone_def Let_def intro: order_trans [OF _ Cons.IH])
  qed
qed simp

lemma output_loop_refs:
  "\<forall>n. k_alloc K n \<Longrightarrow> dev_refs (io (output_loop K data mac devs s)) = dev_refs (io s)"
  by (induction devs arbitrary: s) (simp_all add: skb_clone_def Let_def fun_eq_iff split: option.split)

lemma vrr_output_run:
  assumes "vrr s = Some n" "parse_header (skb_data skb) = Some vh"
  obtains t where "vrr_output K skb ty s = Some (NET_XMIT_SUCCESS, t)" "io_only s t"
    "sent K (skb_data skb) (dest_mac vh) (vn_dev_list n) s t"
    "skb_users (io t) = (skb_users (io s))(skb_id skb := skb_users (io s) (skb_id skb) - 1)"
    "\<forall>d. dev_refs (io s) d \<le> dev_refs (io t) d"
    "(\<forall>n. k_alloc K n) \<longrightarrow> dev_refs (io t) = dev_refs (io s)"
proof -
  define u where "u = output_loop K (skb_data skb) (dest_mac vh) (vn_dev_list n) s"
  have run: "vrr_output K skb ty s = Some (NET_XMIT_SUCCESS, kfree_skb (skb_id skb) u)"
    using assms by (simp add: vrr_output_def vrr_get_node_def u_def)
  have "io_only s (kfree_skb (skb_id skb) u)"
    by (rule io_only_trans [of _ u]) (simp_all add: u_def io_only_output_loop)
  then show ?thesis
    using that [OF run] sent_output_loop [of K "skb_data skb" "dest_mac vh" "vn_dev_list n" s]
    by (simp add: u_def sent_def output_loop_users output_loop_refs_ge output_loop_refs)
qed

lemma io_only_vrr_output: "vrr_output K skb ty s = Some (r, t) \<Longrightarrow> io_only s t"
  by (auto simp: vrr_output_def run_simps intro: io_only_trans [OF io_only_output_loop])

lemma io_only_build_header: "build_header K skb p s = Some (r, t) \<Longrightarrow> io_only s t"
  by (auto simp: build_header_def run_simps uninit_def)

definition header_for :: "vrr_node \<Rightarrow> vrr_packet \<Rightarrow> vrr_header" where
  "header_for n p = \<lparr>vrr_version = vn_version n, pkt_type = pk_pkt_type p, protocol = PF_VRR,
     data_len = pk_data_len p, free_byte = 0, h_csum = 0, src_id = pk_src p, dest_id = pk_dst p,
     dest_mac = (if pk_pkt_type p = VRR_HELLO then replicate ETH_ALEN (- 1) else pk_dest_mac p)\<rparr>"

lemma build_header_run:
  "vrr s = Some n \<Longrightarrow> build_header K skb p s =
     Some ((0, skb\<lparr>skb_data := header_bytes (\<lambda>i. ucast (k_junk K (clock (io s)) i)) (header_for n p) @ skb_data skb\<rparr>),
           tick s)"
  by (simp add: build_header_def uninit_def header_for_def tick_def)

section \<open>Building, then sending\<close>

text \<open>The last lines of every \<open>send_\<close> function: the header, then the devices; the result is ignored.\<close>

definition build_and_output ::
  "kenv \<Rightarrow> sk_buff \<Rightarrow> vrr_packet \<Rightarrow> 'z core_globals_scheme \<Rightarrow> 'z core_globals_scheme option" where
  "build_and_output K skb pkt s = do {
     ((_, skb), s) \<leftarrow> build_header K skb pkt s;
     (_, s) \<leftarrow> vrr_output K skb (pk_pkt_type pkt) s;
     Some s
   }"

lemma io_only_build_and_output: "build_and_output K skb p s = Some t \<Longrightarrow> io_only s t"
  unfolding build_and_output_def
  by (auto simp: run_simps dest!: io_only_build_header io_only_vrr_output intro: io_only_trans)

definition packet_ok :: "vrr_packet \<Rightarrow> bool" where
  "packet_ok p \<longleftrightarrow> pk_pkt_type p = VRR_HELLO \<or> length (pk_dest_mac p) = ETH_ALEN"

lemma build_and_output_run:
  assumes "vrr s = Some n" "packet_ok p"
  obtains pad t where "build_and_output K skb p s = Some t" "io_only s t"
    "sent K (header_bytes pad (header_for n p) @ skb_data skb) (dest_mac (header_for n p)) (vn_dev_list n) s t"
    "skb_users (io t) = (skb_users (io s))(skb_id skb := skb_users (io s) (skb_id skb) - 1)"
proof -
  define pad where "pad = (\<lambda>i. ucast (k_junk K (clock (io s)) i) :: u8)"
  define skb' where "skb' = skb\<lparr>skb_data := header_bytes pad (header_for n p) @ skb_data skb\<rparr>"
  have b: "build_header K skb p s = Some ((0, skb'), tick s)"
    using build_header_run [OF assms(1)] by (simp add: skb'_def pad_def)
  have "length (dest_mac (header_for n p)) = ETH_ALEN"
    using assms(2) by (auto simp: header_for_def packet_ok_def)
  then have ph: "parse_header (skb_data skb') = Some (header_for n p)"
    by (simp add: skb'_def parse_header_bytes)
  have v: "vrr (tick s) = Some n" using assms(1) by (simp add: tick_def)
  obtain t where t: "vrr_output K skb' (pk_pkt_type p) (tick s) = Some (NET_XMIT_SUCCESS, t)" "io_only (tick s) t"
      "sent K (skb_data skb') (dest_mac (header_for n p)) (vn_dev_list n) (tick s) t"
      "skb_users (io t) = (skb_users (io (tick s)))(skb_id skb' := skb_users (io (tick s)) (skb_id skb') - 1)"
    by (rule vrr_output_run [OF v ph])
  have "build_and_output K skb p s = Some t" using b t(1) by (simp add: build_and_output_def)
  then show ?thesis
    by (rule that [where pad = pad]) (use t io_only_trans [OF io_only_tick t(2)] in \<open>simp_all add: sent_def skb'_def\<close>)
qed

end
