(* ===== verification/Messages.thy ===== *)
theory Messages
  imports Transmit
begin

text \<open>
  The messages a node sends (\<open>vrr_core.c\<close>): setup requests, setups, setup failures, teardowns and
  hello packets, and \<open>vrr_add\<close>, which works a received virtual set into this node's own. Sizes are
  natural numbers; a size whose bytes do not fit an \<open>int\<close> has no defined result, since the buffer
  then allocated is smaller than what is written into it.
\<close>

definition be32s :: "u32 list \<Rightarrow> u8 list" where
  "be32s ws = concat (map be32 ws)"

text \<open>\<open>data_size = sizeof(u32) * n\<close> as an \<open>int\<close>.\<close>

definition int_bytes :: "nat \<Rightarrow> nat option" where
  "int_bytes n = (if 4 * n \<le> INT_MAX then Some (4 * n) else None)"

section \<open>Sending\<close>

text \<open>
  The tail every \<open>send_\<close> function has: \<open>vrr_skb_alloc\<close>, copying the words into it, filling the packet
  record, \<open>build_header\<close>, \<open>vrr_output\<close>. \<open>src\<close> is the value of the expression assigned to the \<open>src\<close> field,
  evaluated only once there is a buffer.
\<close>

definition alloc_and_output ::
  "kenv \<Rightarrow> u32 list \<Rightarrow> u32 option \<Rightarrow> u32 \<Rightarrow> u8 \<Rightarrow> mac_addr \<Rightarrow> 'z core_globals_scheme \<Rightarrow>
     (int \<times> 'z core_globals_scheme) option" where
  "alloc_and_output K words src dst type mac s =
     (case vrr_skb_alloc K (be32s words) s of
        (None, s) \<Rightarrow> Some (-1, s)
      | (Some skb, s) \<Rightarrow> do {
          src \<leftarrow> src;
          s \<leftarrow> build_and_output K skb \<lparr>pk_src = src, pk_dst = dst, pk_data_len = of_nat (4 * length words),
                 pk_pkt_type = type, pk_dest_mac = mac\<rparr> s;
          Some (0, s) })"

definition send_setup_req ::
  "kenv \<Rightarrow> u32 \<Rightarrow> u32 \<Rightarrow> u32 \<Rightarrow> 'z core_globals_scheme \<Rightarrow> (int \<times> 'z core_globals_scheme) option" where
  "send_setup_req K src dest proxy s = do {
     let (stack, s) = uninit K s;
     (mac, s) \<leftarrow> pset_get_mac proxy s;
     let proxy_mac = (case mac of Some m \<Rightarrow> m | None \<Rightarrow> junk_mac stack 0);
     ((n, vset'), s) \<leftarrow> vset_get_all K s;
     data_size \<leftarrow> int_bytes (n + 2);
     let (ok, s) = kmalloc K data_size s;
     _ \<leftarrow> (if ok then Some () else None);
     vs \<leftarrow> arr_prefix n vset';
     alloc_and_output K ([proxy, of_nat n] @ vs) (Some src) dest VRR_SETUP_REQ proxy_mac s
   }"

definition send_setup ::
  "kenv \<Rightarrow> u32 \<Rightarrow> u32 \<Rightarrow> u32 \<Rightarrow> u32 \<Rightarrow> nat \<Rightarrow> u32 list \<Rightarrow> u32 \<Rightarrow> 'z core_globals_scheme \<Rightarrow>
     (int \<times> 'z core_globals_scheme) option" where
  "send_setup K src dest path proxy n vset' to s = do {
     data_size \<leftarrow> int_bytes (n + 3);
     (mac, s) \<leftarrow> pset_get_mac to s;
     case mac of
       None \<Rightarrow> Some (-1, s)
     | Some m \<Rightarrow> do {
         vs \<leftarrow> arr_prefix n vset';
         alloc_and_output K ([path, proxy, of_nat n] @ vs) (Some src) dest VRR_SETUP m s }
   }"

definition send_setup_fail ::
  "kenv \<Rightarrow> u32 \<Rightarrow> u32 \<Rightarrow> u32 \<Rightarrow> nat \<Rightarrow> u32 list \<Rightarrow> u32 \<Rightarrow> 'z core_globals_scheme \<Rightarrow>
     (int \<times> 'z core_globals_scheme) option" where
  "send_setup_fail K src dst proxy n vset' to s = do {
     data_size \<leftarrow> int_bytes (n + 2);
     (mac, s) \<leftarrow> pset_get_mac to s;
     case mac of
       None \<Rightarrow> Some (-1, s)
     | Some m \<Rightarrow> do {
         vs \<leftarrow> arr_prefix n vset';
         alloc_and_output K ([proxy, of_nat n] @ vs) (Some src) dst VRR_SETUP_FAIL m s }
   }"

definition send_teardown ::
  "kenv \<Rightarrow> u32 \<Rightarrow> u32 \<Rightarrow> u32 list \<Rightarrow> nat \<Rightarrow> u32 \<Rightarrow> 'z core_globals_scheme \<Rightarrow>
     (int \<times> 'z core_globals_scheme) option" where
  "send_teardown K path endpt vset' n to s = do {
     data_size \<leftarrow> int_bytes (n + 3);
     (mac, s) \<leftarrow> pset_get_mac to s;
     case mac of
       None \<Rightarrow> Some (-1, s)
     | Some m \<Rightarrow> do {
         vs \<leftarrow> arr_prefix n vset';
         alloc_and_output K ([endpt, path, of_nat n] @ vs) (get_vrr_id s) to VRR_TEARDOWN m s }
   }"

text \<open>
  One of the three blocks of \<open>tear_down_path\<close>: if \<open>hop\<close> is set and in the physical set, a teardown to it,
  with the whole virtual set when there is a sender.
\<close>

definition tear_down_hop ::
  "kenv \<Rightarrow> u32 \<Rightarrow> u32 \<Rightarrow> u32 \<Rightarrow> u32 \<Rightarrow> 'z core_globals_scheme \<Rightarrow> 'z core_globals_scheme option" where
  "tear_down_hop K path endpt sender hop s =
     (if hop = 0 then Some s
      else do {
        (known, s) \<leftarrow> pset_contains hop s;
        if known = 0 then Some s
        else do {
          ((n, vset'), s) \<leftarrow> (if sender \<noteq> 0 then vset_get_all K s else Some ((0, []), s));
          (_, s) \<leftarrow> send_teardown K path endpt vset' n hop s;
          Some s } })"

definition tear_down_path ::
  "kenv \<Rightarrow> u32 \<Rightarrow> u32 \<Rightarrow> u32 \<Rightarrow> 'z core_globals_scheme \<Rightarrow> (int \<times> 'z core_globals_scheme) option" where
  "tear_down_path K path endpt sender s = do {
     (route, s) \<leftarrow> rt_remove_route endpt path s;
     case route of
       None \<Rightarrow> Some (-1, s)
     | Some r \<Rightarrow> do {
         s \<leftarrow> tear_down_hop K path endpt sender (na r) s;
         s \<leftarrow> tear_down_hop K path endpt sender (nb r) s;
         s \<leftarrow> tear_down_hop K path endpt sender sender s;
         Some (0, s) }
   }"

text \<open>The address in a hello packet is not set by the caller; \<open>build_header\<close> uses the broadcast address.\<close>

definition send_hpkt :: "kenv \<Rightarrow> 'z core_globals_scheme \<Rightarrow> (int \<times> 'z core_globals_scheme) option" where
  "send_hpkt K s = do {
     node \<leftarrow> vrr s;
     ps \<leftarrow> pstate s;
     let data_size = 4 * (la_size ps + lna_size ps + p_size ps + 4);
     let (ok, s) = kmalloc K data_size s;
     _ \<leftarrow> (if ok then Some () else None);
     la \<leftarrow> arr_prefix (la_size ps) (l_active ps);
     lna \<leftarrow> arr_prefix (lna_size ps) (l_not_active ps);
     pend \<leftarrow> arr_prefix (p_size ps) (pending ps);
     alloc_and_output K ([vn_active node, of_nat (la_size ps), of_nat (lna_size ps), of_nat (p_size ps)]
         @ la @ lna @ pend) (Some (vn_id node)) 0 VRR_HELLO [] s
   }"

section \<open>Adding to the virtual set\<close>

fun vrr_add_loop :: "kenv \<Rightarrow> u32 \<Rightarrow> u32 list \<Rightarrow> 'z core_globals_scheme \<Rightarrow> 'z core_globals_scheme option" where
  "vrr_add_loop K me [] s = Some s"
| "vrr_add_loop K me (v # vs) s = do {
     (should, s) \<leftarrow> vset_should_add K v s;
     s \<leftarrow> (if should \<noteq> 0 then do {
             (ret, s) \<leftarrow> pset_get_proxy K s;
             case ret of
               None \<Rightarrow> Some s
             | Some proxy \<Rightarrow> do { (_, s) \<leftarrow> send_setup_req K me v proxy s; Some s } }
           else Some s);
     vrr_add_loop K me vs s
   }"

definition vrr_add :: "kenv \<Rightarrow> u32 \<Rightarrow> nat \<Rightarrow> u32 list \<Rightarrow> 'z core_globals_scheme \<Rightarrow> (int \<times> 'z core_globals_scheme) option" where
  "vrr_add K src n vset' s = do {
     me \<leftarrow> get_vrr_id s;
     vs \<leftarrow> arr_prefix n vset';
     s \<leftarrow> vrr_add_loop K me vs s;
     (add, s) \<leftarrow> (if src \<noteq> UINT_MAX then vset_should_add K src s else Some (0, s));
     if add \<noteq> 0 then do { (_, s) \<leftarrow> vset_add K src s; Some (1, s) }
     else Some (0, s)
   }"

section \<open>Sending changes nothing but the kernel's side\<close>

lemma pset_get_mac_state: "pset_get_mac x s = Some (r, t) \<Longrightarrow> t = s \<and> r = map_option pl_mac (neighbour s x)"
  by (auto simp: pset_get_mac_def spin_lock_def spin_unlock_def held_idem neighbour_def split: if_splits)

lemma pset_contains_state: "pset_contains x s = Some (r, t) \<Longrightarrow> t = s \<and> (r \<noteq> 0 \<longleftrightarrow> neighbour s x \<noteq> None)"
  by (auto simp: pset_contains_def spin_lock_def spin_unlock_def held_idem neighbour_def split: if_splits)

lemma vset_get_all_io: "vset_get_all K s = Some (r, t) \<Longrightarrow> io_only s t"
  by (auto simp: vset_get_all_def spin_lock_def spin_unlock_def kmalloc_def uninit_def tick_def fun_upd_idem
      io_only_def run_simps Let_def split: if_splits)

lemma vset_should_add_io: "vset_should_add K v s = Some (r, t) \<Longrightarrow> io_only s t"
  by (auto simp: vset_should_add_def spin_lock_def spin_unlock_def uninit_def tick_def fun_upd_idem
      io_only_def run_simps Let_def split: if_splits)

lemma pset_get_proxy_io: "pset_get_proxy K s = Some (r, t) \<Longrightarrow> io_only s t"
  by (cases "held s vrr_pset_lock")
    (auto simp: pset_get_proxy_run split: if_splits, simp add: pset_get_proxy_def spin_lock_def)

lemma alloc_and_output_io: "alloc_and_output K ws a b ty m s = Some (r, t) \<Longrightarrow> io_only s t"
  unfolding alloc_and_output_def
  by (auto simp: run_simps split: option.splits prod.splits
      dest!: io_only_skb_alloc io_only_build_and_output intro: io_only_trans)

lemmas io_only_ops = alloc_and_output_io io_only_skb_alloc io_only_build_and_output vset_get_all_io vset_should_add_io pset_get_proxy_io

lemma send_setup_req_io: "send_setup_req K a b c s = Some (r, t) \<Longrightarrow> io_only s t"
  unfolding send_setup_req_def uninit_def kmalloc_def Let_def
  by (auto simp: run_simps io_only_tick_iff split: prod.splits if_splits
      dest!: pset_get_mac_state io_only_ops intro: io_only_trans)

lemma send_setup_io: "send_setup K a b c d n v x s = Some (r, t) \<Longrightarrow> io_only s t"
  unfolding send_setup_def Let_def
  by (auto simp: run_simps split: option.splits prod.splits
      dest!: pset_get_mac_state io_only_ops intro: io_only_trans)

lemma send_setup_fail_io: "send_setup_fail K a b c n v x s = Some (r, t) \<Longrightarrow> io_only s t"
  unfolding send_setup_fail_def Let_def
  by (auto simp: run_simps split: option.splits prod.splits
      dest!: pset_get_mac_state io_only_ops intro: io_only_trans)

lemma send_teardown_io: "send_teardown K a b v n x s = Some (r, t) \<Longrightarrow> io_only s t"
  unfolding send_teardown_def Let_def
  by (auto simp: run_simps split: option.splits prod.splits
      dest!: pset_get_mac_state io_only_ops intro: io_only_trans)

lemma send_hpkt_io: "send_hpkt K s = Some (r, t) \<Longrightarrow> io_only s t"
  unfolding send_hpkt_def kmalloc_def Let_def
  by (auto simp: run_simps split: option.splits prod.splits if_splits
      dest!: io_only_ops intro: io_only_trans io_only_tick)

lemma tear_down_hop_io: "tear_down_hop K p e x h s = Some t \<Longrightarrow> io_only s t"
  unfolding tear_down_hop_def
  by (auto simp: run_simps split: prod.splits if_splits
      dest!: pset_contains_state vset_get_all_io send_teardown_io intro: io_only_trans)

lemma vrr_add_loop_io: "vrr_add_loop K me vs s = Some t \<Longrightarrow> io_only s t"
proof (induction vs arbitrary: s)
  case (Cons v vs)
  from Cons.prems obtain r s1 where 1: "vset_should_add K v s = Some (r, s1)"
    and 2: "(if r \<noteq> 0 then do {
             (ret, s) \<leftarrow> pset_get_proxy K s1;
             case ret of None \<Rightarrow> Some s
             | Some proxy \<Rightarrow> do { (_, s) \<leftarrow> send_setup_req K me v proxy s; Some s } }
           else Some s1) \<bind> vrr_add_loop K me vs = Some t"
    by (auto simp: run_simps)
  from 2 obtain s2 where 3: "io_only s1 s2" "vrr_add_loop K me vs s2 = Some t"
    by (auto simp: run_simps split: if_splits option.splits
        dest!: pset_get_proxy_io send_setup_req_io intro: io_only_trans)
  from vset_should_add_io [OF 1] 3(1) Cons.IH [OF 3(2)] show ?case by (blast intro: io_only_trans)
qed simp

section \<open>What a message is on the wire\<close>

text \<open>
  A message with header \<open>h\<close> and payload words \<open>ws\<close>: the frames added to the transmit queue all carry
  these bytes, for some padding, and go to the address in the header.
\<close>

definition message :: "kenv \<Rightarrow> string list \<Rightarrow> vrr_header \<Rightarrow> u32 list \<Rightarrow> 'z kern_scheme \<Rightarrow> 'z kern_scheme \<Rightarrow> bool" where
  "message K devs h ws s t \<longleftrightarrow> length (dest_mac h) = ETH_ALEN
     \<and> (\<exists>pad. sent K (header_bytes pad h @ be32s ws) (dest_mac h) devs s t)"

text \<open>A received buffer that holds such a message.\<close>

definition carries :: "vrr_header \<Rightarrow> u32 list \<Rightarrow> u8 list \<Rightarrow> bool" where
  "carries h ws bs \<longleftrightarrow> length (dest_mac h) = ETH_ALEN \<and> (\<exists>pad. bs = header_bytes pad h @ be32s ws)"

lemma message_frames:
  assumes "message K devs h ws s t"
  obtains fs where "tx (io t) = tx (io s) @ fs"
    "\<forall>f \<in> set fs. carries h ws (fr_data f) \<and> fr_dest f = dest_mac h \<and> fr_proto f = ETH_P_VRR \<and> fr_dev f \<in> set devs"
    "(\<forall>n. k_alloc K n) \<longrightarrow> map fr_dev fs = live K devs"
  using assms unfolding message_def sent_def frames_of_def carries_def by metis

text \<open>Reading a message back gives the header and the words that were put in.\<close>

lemma carries_hdr: "carries h ws (skb_data skb) \<Longrightarrow> vrr_hdr skb = Some h"
  by (auto simp: carries_def vrr_hdr_def parse_header_bytes)

lemma be32s_split: "i + n \<le> length ws \<Longrightarrow>
    be32s ws = be32s (take i ws) @ be32s (take n (drop i ws)) @ be32s (drop (i + n) ws)"
proof -
  assume "i + n \<le> length ws"
  have "ws = take i ws @ take n (drop i ws) @ drop (i + n) ws"
    by (metis add.commute append_take_drop_id drop_drop)
  then show ?thesis by (metis be32s_def concat_append map_append)
qed

lemma length_be32s_eq [simp]: "length (be32s ws) = 4 * length ws"
  by (simp add: be32s_def length_be32s)

lemma carries_words:
  assumes "carries h ws (skb_data skb)" "i + n \<le> length ws" "off = sizeof_vrr_header + 4 * i"
  shows "read_u32s skb off n old = take n (drop i ws)"
proof -
  obtain pad where d: "skb_data skb = header_bytes pad h @ be32s ws" and m: "length (dest_mac h) = ETH_ALEN"
    using assms(1) by (auto simp: carries_def)
  show ?thesis
    by (rule read_u32s_at [where pre = "header_bytes pad h @ be32s (take i ws)" and post = "be32s (drop (i + n) ws)"])
      (use d m assms(2,3) be32s_split [OF assms(2)] in \<open>auto simp: be32s_def length_header_bytes length_be32s\<close>)
qed

lemma carries_word:
  assumes "carries h ws (skb_data skb)" "i < length ws" "off = sizeof_vrr_header + 4 * i"
  shows "read_u32 skb off old = ws ! i"
proof -
  obtain pad where d: "skb_data skb = header_bytes pad h @ be32s ws" and m: "length (dest_mac h) = ETH_ALEN"
    using assms(1) by (auto simp: carries_def)
  have "be32s ws = be32s (take i ws) @ be32 (ws ! i) @ be32s (drop (Suc i) ws)"
    using be32s_split [of i 1 ws] assms(2) by (simp add: be32s_def hd_drop_conv_nth take_Suc)
  then show ?thesis
    by (intro read_u32_at [where pre = "header_bytes pad h @ be32s (take i ws)" and post = "be32s (drop (Suc i) ws)"])
      (use d m assms(2,3) in \<open>simp_all add: length_header_bytes\<close>)
qed

section \<open>Each message goes out as built\<close>

definition msg_header :: "vrr_node \<Rightarrow> u32 \<Rightarrow> u32 \<Rightarrow> u8 \<Rightarrow> mac_addr \<Rightarrow> nat \<Rightarrow> vrr_header" where
  "msg_header n src dst type mac words = header_for n \<lparr>pk_src = src, pk_dst = dst, pk_data_len = of_nat (4 * words),
     pk_pkt_type = type, pk_dest_mac = mac\<rparr>"

lemma msg_header_sel [simp]:
  "pkt_type (msg_header n src dst ty mac k) = ty" "src_id (msg_header n src dst ty mac k) = src"
  "dest_id (msg_header n src dst ty mac k) = dst" "data_len (msg_header n src dst ty mac k) = of_nat (4 * k)"
  "dest_mac (msg_header n src dst ty mac k) = (if ty = VRR_HELLO then replicate ETH_ALEN (- 1) else mac)"
  by (simp_all add: msg_header_def header_for_def)

lemma alloc_and_output_run:
  assumes "vrr s = Some n" "\<forall>i. k_alloc K i" "ty = VRR_HELLO \<or> length mac = ETH_ALEN"
  obtains t where "alloc_and_output K ws (Some src) dst ty mac s = Some (0, t)" "io_only s t"
    "message K (vn_dev_list n) (msg_header n src dst ty mac (length ws)) ws s t"
    "skb_users (io t) = (skb_users (io s))(next_skb (io s) := 0)"
proof -
  define p where "p = \<lparr>pk_src = src, pk_dst = dst, pk_data_len = of_nat (4 * length ws), pk_pkt_type = ty, pk_dest_mac = mac\<rparr>"
  obtain skb s1 where a: "vrr_skb_alloc K (be32s ws) s = (Some skb, s1)" "skb_data skb = be32s ws"
      "skb_id skb = next_skb (io s)" "tx (io s1) = tx (io s)" "skb_users (io s1) = (skb_users (io s))(next_skb (io s) := 1)"
    using assms(2) by (simp add: vrr_skb_alloc_def)
  have io: "io_only s s1" by (rule io_only_skb_alloc [OF a(1)])
  have v: "vrr s1 = Some n" using assms(1) io by (auto elim!: io_onlyE)
  have ok: "packet_ok p" using assms(3) by (auto simp: packet_ok_def p_def)
  obtain pad t where t: "build_and_output K skb p s1 = Some t" "io_only s1 t"
      "sent K (header_bytes pad (header_for n p) @ skb_data skb) (dest_mac (header_for n p)) (vn_dev_list n) s1 t"
      "skb_users (io t) = (skb_users (io s1))(skb_id skb := skb_users (io s1) (skb_id skb) - 1)"
    by (rule build_and_output_run [OF v ok])
  have h: "msg_header n src dst ty mac (length ws) = header_for n p" by (simp add: msg_header_def p_def)
  have "alloc_and_output K ws (Some src) dst ty mac s = Some (0, t)"
    using a(1) t(1) by (simp add: alloc_and_output_def p_def)
  moreover have "message K (vn_dev_list n) (header_for n p) ws s t"
    using t(3) a(2,4) assms(3) unfolding message_def sent_def by (auto simp: header_for_def p_def)
  ultimately show ?thesis
    using that [of t] io_only_trans [OF io t(2)] t(4) a(3,5) h by (simp add: fun_eq_iff)
qed

text \<open>The parts of the state a send relies on.\<close>

definition can_send :: "'z core_globals_scheme \<Rightarrow> vrr_node \<Rightarrow> bool" where
  "can_send s n \<longleftrightarrow> unlocked s \<and> vrr s = Some n \<and> pset_inv s \<and> vset_inv s"

lemma can_send_io_only: "io_only s t \<Longrightarrow> can_send t n = can_send s n"
  by (auto simp: can_send_def unlocked_io_only pset_inv_io_only vset_inv_io_only elim!: io_onlyE)

text \<open>A message to a known neighbour goes to its address; one to an unknown node is refused with -1.\<close>

lemma send_to_neighbour_eq:
  assumes "unlocked s" "neighbour s to = Some e" "length vs = k" "4 * (k + 3) \<le> INT_MAX"
  shows "send_setup K src dst path proxy k vs to s =
      alloc_and_output K ([path, proxy, of_nat k] @ vs) (Some src) dst VRR_SETUP (pl_mac e) s"
    "send_setup_fail K src dst proxy k vs to s =
      alloc_and_output K ([proxy, of_nat k] @ vs) (Some src) dst VRR_SETUP_FAIL (pl_mac e) s"
    "send_teardown K path endpt vs k to s =
      alloc_and_output K ([endpt, path, of_nat k] @ vs) (get_vrr_id s) to VRR_TEARDOWN (pl_mac e) s"
  using assms
  by (simp_all add: send_setup_def send_setup_fail_def send_teardown_def int_bytes_def pset_get_mac_run arr_prefix_def)

lemma send_to_unknown:
  assumes "unlocked s" "neighbour s to = None" "4 * (k + 3) \<le> INT_MAX"
  shows "send_setup K src dst path proxy k vs to s = Some (-1, s)"
    "send_setup_fail K src dst proxy k vs to s = Some (-1, s)"
    "send_teardown K path endpt vs k to s = Some (-1, s)"
  using assms
  by (simp_all add: send_setup_def send_setup_fail_def send_teardown_def int_bytes_def pset_get_mac_run)

lemma alloc_and_output_to:
  assumes "can_send s n" "\<forall>i. k_alloc K i" "neighbour s to = Some e"
  obtains t where "alloc_and_output K ws (Some src) dst ty (pl_mac e) s = Some (0, t)" "io_only s t"
    "message K (vn_dev_list n) (msg_header n src dst ty (pl_mac e) (length ws)) ws s t"
  using alloc_and_output_run [of s n K ty "pl_mac e" ws src dst] assms
  unfolding can_send_def by (metis neighbour_mac_length)

text \<open>With memory for the packet no send has undefined behaviour.\<close>

lemma send_total:
  assumes "can_send s n" "\<forall>i. k_alloc K i" "length vs = k" "4 * (k + 3) \<le> INT_MAX"
  shows "\<exists>r t. send_setup K src dst path proxy k vs to s = Some (r, t)"
    "\<exists>r t. send_setup_fail K src dst proxy k vs to s = Some (r, t)"
    "\<exists>r t. send_teardown K path endpt vs k to s = Some (r, t)"
proof -
  have u: "unlocked s" "get_vrr_id s = Some (vn_id n)" using assms(1) by (simp_all add: can_send_def get_vrr_id_def)
  have "(\<exists>r t. send_setup K src dst path proxy k vs to s = Some (r, t)) \<and>
    (\<exists>r t. send_setup_fail K src dst proxy k vs to s = Some (r, t)) \<and>
    (\<exists>r t. send_teardown K path endpt vs k to s = Some (r, t))"
  proof (cases "neighbour s to")
    case None
    then show ?thesis using send_to_unknown [OF u(1) None assms(4)] by simp
  next
    case (Some e)
    show ?thesis
      unfolding send_to_neighbour_eq [OF u(1) Some assms(3,4)] u(2)
      by (meson alloc_and_output_to [OF assms(1,2) Some])
  qed
  then show "\<exists>r t. send_setup K src dst path proxy k vs to s = Some (r, t)"
    "\<exists>r t. send_setup_fail K src dst proxy k vs to s = Some (r, t)"
    "\<exists>r t. send_teardown K path endpt vs k to s = Some (r, t)" by blast+
qed

text \<open>
  A setup request always goes out; to a proxy that is not in the physical set it goes to whatever
  address the stack held.
\<close>

definition req_mac :: "kenv \<Rightarrow> u32 \<Rightarrow> 'z core_globals_scheme \<Rightarrow> mac_addr" where
  "req_mac K proxy s = (case neighbour s proxy of Some e \<Rightarrow> pl_mac e | None \<Rightarrow> junk_mac (k_junk K (clock (io s))) 0)"

lemma neighbour_tick [simp]: "neighbour (tick s) = neighbour s"
  by (simp add: neighbour_def tick_def fun_eq_iff)

lemma tick_sel [simp]:
  "clock (io (tick s)) = Suc (clock (io s))" "held (tick s) = held s" "vset (tick v) = vset v"
  "vset_size (tick v) = vset_size v" "pset (tick p) = pset p" "vrr (tick c) = vrr c" "pstate (tick c) = pstate c"
  by (simp_all add: tick_def)

lemma io_tick_io: "io_only s t \<Longrightarrow> io_only s (tick t)"
  using io_only_trans io_only_tick by blast

lemma send_setup_req_run:
  assumes "can_send s n" "\<forall>i. k_alloc K i" "4 * (vset_size s + 2) \<le> INT_MAX"
  obtains vs t where "send_setup_req K src dst proxy s = Some (0, t)" "io_only s t"
    "message K (vn_dev_list n) (msg_header n src dst VRR_SETUP_REQ (req_mac K proxy s) (vset_size s + 2))
       ([proxy, of_nat (vset_size s)] @ vs) s t"
    "length vs = vset_size s" "take (length (vset s)) vs = map vl_node (vset s)"
proof -
  define vs where "vs = map vl_node (vset s) @ map (k_junk K (Suc (Suc (clock (io s))))) [length (vset s)..<vset_size s]"
  define u where "u = tick (tick (tick (tick s)))"
  have st: "unlocked s" "vrr s = Some n" "pset_inv s" "vset_inv s" using assms(1) by (simp_all add: can_send_def)
  have len: "length vs = vset_size s" using st(4) by (simp add: vs_def vset_inv_def)
  have io: "io_only s u" unfolding u_def by (intro io_tick_io) simp
  have v: "vrr u = Some n" and tu: "tx (io u) = tx (io s)" using st(2) by (simp_all add: u_def)
  have m: "length (req_mac K proxy s) = ETH_ALEN"
    using neighbour_mac_length [OF st(3)] by (auto simp: req_mac_def junk_mac_def split: option.split)
  have "vset_inv (tick s)" "\<not> held (tick s) vrr_vset_lock" "\<not> held (tick s) vrr_pset_lock"
    using vset_inv_io_only [OF io_only_tick, of s] st(1,4) by simp_all
  then have eq: "send_setup_req K src dst proxy s =
      alloc_and_output K ([proxy, of_nat (vset_size s)] @ vs) (Some src) dst VRR_SETUP_REQ (req_mac K proxy s) u"
    unfolding send_setup_req_def
    using assms(2,3) len by (simp add: uninit_def pset_get_mac_run vset_get_all_run int_bytes_def kmalloc_def
        arr_prefix_def req_mac_def u_def vs_def option.case_eq_if option.map_sel)
  obtain t where t: "alloc_and_output K ([proxy, of_nat (vset_size s)] @ vs) (Some src) dst VRR_SETUP_REQ (req_mac K proxy s) u
        = Some (0, t)" "io_only u t"
      "message K (vn_dev_list n) (msg_header n src dst VRR_SETUP_REQ (req_mac K proxy s)
         (length ([proxy, of_nat (vset_size s)] @ vs))) ([proxy, of_nat (vset_size s)] @ vs) u t"
    by (rule alloc_and_output_run [OF v assms(2) disjI2 [OF m]])
  show ?thesis
    by (rule that [of t vs]) (use eq t io_only_trans [OF io t(2)] len tu in \<open>simp_all add: message_def sent_def vs_def\<close>)
qed

lemma send_hpkt_run:
  assumes "can_send s n" "\<forall>i. k_alloc K i" "pstate s = Some ps" "arrays_ok ps" "mirrors ps (pset s)"
  defines "A \<equiv> filter linked_active (pset s)" and "B \<equiv> filter linked_inactive (pset s)"
    and "C \<equiv> filter link_pending (pset s)"
  obtains t where "send_hpkt K s = Some (0, t)" "io_only s t"
    "message K (vn_dev_list n) (msg_header n (vn_id n) 0 VRR_HELLO [] (4 + length A + length B + length C))
       ([vn_active n, of_nat (length A), of_nat (length B), of_nat (length C)]
          @ map pl_node A @ map pl_node B @ map pl_node C) s t"
proof -
  define ws where "ws = [vn_active n, of_nat (length A), of_nat (length B), of_nat (length C)]
          @ map pl_node A @ map pl_node B @ map pl_node C"
  have st: "vrr s = Some n" using assms(1) by (simp add: can_send_def)
  have len: "length A \<le> 20" "length B \<le> 20" "length C \<le> 20"
    using mirrors_fits [OF assms(4,5)] by (simp_all add: fits_def assms(6-8))
  have sz: "la_size ps = length A" "lna_size ps = length B" "p_size ps = length C"
    using assms(5) by (simp_all add: mirrors_def class_mirrors_def assms(6-8))
  have arr: "arr_prefix (length A) (l_active ps) = Some (map pl_node A)"
      "arr_prefix (length B) (l_not_active ps) = Some (map pl_node B)"
      "arr_prefix (length C) (pending ps) = Some (map pl_node C)"
    using assms(4,5) sz len by (auto simp: mirrors_def class_mirrors_def arr_prefix_def arrays_ok_def assms(6-8))
  have eq: "send_hpkt K s = alloc_and_output K ws (Some (vn_id n)) 0 VRR_HELLO [] (tick s)"
    using st assms(2,3) sz arr len by (simp add: send_hpkt_def ws_def kmalloc_def)
  have v: "vrr (tick s) = Some n" using st by simp
  obtain t where t: "alloc_and_output K ws (Some (vn_id n)) 0 VRR_HELLO [] (tick s) = Some (0, t)" "io_only (tick s) t"
      "message K (vn_dev_list n) (msg_header n (vn_id n) 0 VRR_HELLO [] (length ws)) ws (tick s) t"
    by (rule alloc_and_output_run [OF v assms(2), of VRR_HELLO]) simp
  have lw: "length ws = 4 + length A + length B + length C" by (simp add: ws_def)
  have "message K (vn_dev_list n) (msg_header n (vn_id n) 0 VRR_HELLO [] (length ws)) ws s t"
    using t(3) unfolding message_def sent_def by simp
  then have "message K (vn_dev_list n) (msg_header n (vn_id n) 0 VRR_HELLO [] (4 + length A + length B + length C)) ws s t"
    unfolding lw .
  then show ?thesis
    by (intro that [of t]) (use eq t(1,2) in \<open>simp_all add: io_only_tick_iff ws_def\<close>)
qed

section \<open>Working in a virtual set\<close>

lemma proxies_io_only: "io_only s t \<Longrightarrow> proxies t = proxies s"
  by (auto simp: proxies_def elim!: io_onlyE)

lemma vset_size_io_only: "io_only s t \<Longrightarrow> vset_size t = vset_size s \<and> vset t = vset s"
  by (auto elim!: io_onlyE)

lemma vset_add_total:
  assumes "sort_by_address K" "vset_inv s" "unlocked s" "\<forall>i. k_alloc K i" "vset_size s < INT_MAX"
  shows "\<exists>r t. vset_add K node s = Some (r, t)"
proof (cases "in_vset s node")
  case True
  then show ?thesis using assms(3) by (simp add: vset_add_known)
next
  case False
  obtain s1 where 1: "insert_vset_node K node s = Some s1" using assms(4,5) by (simp add: insert_vset_node_run)
  have "vset_bump K s1 \<noteq> None"
    unfolding vset_bump_run [OF assms(1) vset_inv_insert [OF assms(2) False 1]] by (simp split: option.split)
  then obtain b s2 where "vset_bump K s1 = Some (b, s2)" by auto
  then show ?thesis
    using vset_add_new [OF assms(1,2) _ False] assms(3) 1 by (auto split: prod.split)
qed

text \<open>What \<open>vrr_add\<close> needs besides a node that can send: few enough proxies and a virtual set that can be sent.\<close>

definition can_add :: "'z core_globals_scheme \<Rightarrow> vrr_node \<Rightarrow> bool" where
  "can_add s n \<longleftrightarrow> can_send s n \<and> length (proxies s) \<le> VRR_PSET_SIZE \<and> 4 * (vset_size s + 3) \<le> INT_MAX"

lemma can_add_io_only: "io_only s t \<Longrightarrow> can_add t n = can_add s n"
  by (simp add: can_add_def can_send_io_only proxies_io_only vset_size_io_only)

lemma vrr_add_loop_total:
  assumes "can_add s n" "\<forall>i. k_alloc K i" "sort_by_address K"
  shows "\<exists>t. vrr_add_loop K me vs s = Some t"
  using assms(1)
proof (induction vs arbitrary: s)
  case (Cons v vs)
  have st: "unlocked s" "vset_inv s" using Cons.prems by (simp_all add: can_add_def can_send_def)
  obtain r s1 where 1: "vset_should_add K v s = Some (r, s1)" "io_only s s1"
    using vset_should_add_run [OF _ st(2) assms(3), of v] st(1) by simp
  have a1: "can_add s1 n" using can_add_io_only [OF 1(2)] Cons.prems by simp
  then have u1: "\<not> held s1 vrr_pset_lock" and p1: "length (proxies s1) \<le> 20"
    by (simp_all add: can_add_def can_send_def)
  obtain x s2 where 2: "pset_get_proxy K s1 = Some (x, s2)" "io_only s1 s2"
    using pset_get_proxy_run [OF u1, of K] p1 by (cases "proxies s1 = []") auto
  have a2: "can_add s2 n" using can_add_io_only [OF 2(2)] a1 by simp
  have "\<exists>s3. send_setup_req K me v p s2 = Some (0, s3)" for p
  proof -
    have "can_send s2 n" "4 * (vset_size s2 + 2) \<le> INT_MAX" using a2 by (simp_all add: can_add_def)
    from send_setup_req_run [OF this(1) assms(2) this(2), of me v p] show ?thesis by blast
  qed
  then obtain s3 where 3: "\<forall>p. x = Some p \<longrightarrow> send_setup_req K me v p s2 = Some (0, s3)" by (cases x) auto
  have "\<exists>s4. (if r \<noteq> 0 then do { (ret, s) \<leftarrow> pset_get_proxy K s1;
          case ret of None \<Rightarrow> Some s | Some proxy \<Rightarrow> do { (_, s) \<leftarrow> send_setup_req K me v proxy s; Some s } }
        else Some s1) = Some s4 \<and> can_add s4 n"
  proof (cases "r = 0")
    case False
    show ?thesis
    proof (cases x)
      case None
      then show ?thesis using False 2 a2 by simp
    next
      case (Some p)
      then have run: "send_setup_req K me v p s2 = Some (0, s3)" using 3 by simp
      then have "can_add s3 n" using can_add_io_only [OF send_setup_req_io [OF run]] a2 by simp
      then show ?thesis using False 2 Some run by simp
    qed
  qed (use a1 in simp)
  then obtain s4 where "vrr_add_loop K me (v # vs) s = vrr_add_loop K me vs s4" "can_add s4 n"
    using 1(1) by (auto simp del: split_paired_Ex)
  then show ?case using Cons.IH [of s4] by simp
qed simp

lemma vrr_add_effect:
  assumes "vrr_add K src k vs s = Some (r, t)" "sort_by_address K" "vset_inv s"
  shows "vset_inv t \<and> vset_only s t \<and> r \<in> {0, 1} \<and> (r = 0 \<longrightarrow> io_only s t)"
proof -
  obtain me us s1 where 1: "vrr_add_loop K me us s = Some s1"
    and 2: "(if src \<noteq> UINT_MAX then vset_should_add K src s1 else Some (0, s1)) \<bind>
      (\<lambda>(add, s). if add \<noteq> 0 then do { (_, s) \<leftarrow> vset_add K src s; Some (1, s) } else Some (0, s)) = Some (r, t)"
    using assms(1) by (auto simp: vrr_add_def run_simps)
  obtain a s2 where 3: "io_only s1 s2"
    and 4: "(if a \<noteq> (0 :: int) then do { (_, s) \<leftarrow> vset_add K src s2; Some (1, s) } else Some (0, s2)) = Some (r, t)"
  proof (cases "src = UINT_MAX")
    case True
    then show ?thesis using that [of s1 0] 2 by simp
  next
    case False
    then show ?thesis using that 2 by (auto simp: run_simps dest: vset_should_add_io)
  qed
  have io: "io_only s s2" using vrr_add_loop_io [OF 1] 3 by (rule io_only_trans)
  have inv2: "vset_inv s2" using vset_inv_io_only [OF io] assms(3) by simp
  show ?thesis
  proof (cases "a = 0")
    case True
    then show ?thesis using 4 io inv2 by (auto simp: vset_only_io)
  next
    case False
    then obtain b where add: "vset_add K src s2 = Some (b, t)" and r: "r = 1" using 4 by (auto simp: run_simps)
    have "\<not> held s2 vrr_vset_lock" using add by (auto simp: vset_add_def spin_lock_def)
    then show ?thesis
      using vset_add_inv [OF assms(2) inv2 _ add] vset_only_trans [OF vset_only_io [OF io]] r by simp
  qed
qed

lemma vrr_add_total:
  assumes "can_add s n" "\<forall>i. k_alloc K i" "sort_by_address K" "k \<le> length vs"
  shows "\<exists>r t. vrr_add K src k vs s = Some (r, t)"
proof -
  have v: "vrr s = Some n" using assms(1) by (simp add: can_add_def can_send_def)
  obtain s1 where 1: "vrr_add_loop K (vn_id n) (take k vs) s = Some s1"
    using vrr_add_loop_total [OF assms(1-3)] by blast
  have a1: "can_add s1 n" using can_add_io_only [OF vrr_add_loop_io [OF 1]] assms(1) by simp
  then have st: "unlocked s1" "vset_inv s1" "vset_size s1 < INT_MAX"
    by (auto simp: can_add_def can_send_def INT_MAX_def)
  obtain b s2 where 2: "vset_should_add K src s1 = Some (b, s2)" "io_only s1 s2"
    using vset_should_add_run [OF _ st(2) assms(3), of src] st(1) by simp
  have "vset_inv s2" "unlocked s2" "vset_size s2 < INT_MAX"
    using 2(2) st by (simp_all add: vset_inv_io_only unlocked_io_only vset_size_io_only)
  then obtain c s3 where 3: "vset_add K src s2 = Some (c, s3)"
    using vset_add_total [OF assms(3) _ _ assms(2), of s2 src] by blast
  show ?thesis
    using v 1 2(1) 3 assms(4) by (simp add: vrr_add_def get_vrr_id_def arr_prefix_def split: prod.split)
qed

end
