(* ===== verification/Sockets.thy ===== *)
theory Sockets
  imports Messages
begin

text \<open>
  The PF_VRR socket family (\<open>af_vrr.c\<close>). A socket is an index into the store \<open>socks\<close>; its record holds
  the fields of \<open>struct vrr_sock\<close>, \<open>struct sock\<close> and \<open>struct socket\<close> the file uses. The hash table
  \<open>vrr_socks.hlist\<close> is the list of its 32 buckets, each in traversal order. What belongs to the
  kernel's socket layer is an argument of the operation that calls it: \<open>sock_queue_rcv_skb\<close>,
  \<open>copy_to_user\<close>, \<open>memcpy_fromiovec\<close>, \<open>sk_common_release\<close>.
\<close>

datatype socket_state = SS_UNCONNECTED | SS_CONNECTED

record vrr_sock =
  rem_addr :: u32
  sk_state :: socket_state
  sk_refcnt :: int
  sk_receive_queue :: "sk_buff list"

record sock_globals = core_globals +
  socks :: "nat \<Rightarrow> vrr_sock option"
  hlist :: "nat list list"

record sockaddr_vrr =
  svrr_family :: u16
  svrr_addr :: u32

abbreviation (input) VRR_HASHSIZE :: nat where "VRR_HASHSIZE \<equiv> 32"
abbreviation (input) VRR_HASHMASK :: u32 where "VRR_HASHMASK \<equiv> 31"
abbreviation (input) SOCK_RAW :: int where "SOCK_RAW \<equiv> 3"
abbreviation (input) sizeof_sockaddr_vrr :: int where "sizeof_sockaddr_vrr \<equiv> 16"
abbreviation (input) EINTR :: int where "EINTR \<equiv> 4"
abbreviation (input) EWOULDBLOCK :: int where "EWOULDBLOCK \<equiv> 11"
abbreviation (input) EFAULT :: int where "EFAULT \<equiv> 14"
abbreviation (input) EINVAL :: int where "EINVAL \<equiv> 22"
abbreviation (input) EDESTADDRREQ :: int where "EDESTADDRREQ \<equiv> 89"
abbreviation (input) EPROTONOSUPPORT :: int where "EPROTONOSUPPORT \<equiv> 93"
abbreviation (input) ESOCKTNOSUPPORT :: int where "ESOCKTNOSUPPORT \<equiv> 94"
abbreviation (input) EISCONN :: int where "EISCONN \<equiv> 106"
abbreviation (input) EHOSTUNREACH :: int where "EHOSTUNREACH \<equiv> 113"

section \<open>The socket table\<close>

definition vrr_sock_init :: "'z sock_globals_scheme \<Rightarrow> 'z sock_globals_scheme" where
  "vrr_sock_init s = s\<lparr>hlist := replicate VRR_HASHSIZE [], held := (held s)(vrr_socks_lock := False)\<rparr>"

definition vrr_hash_list :: "u32 \<Rightarrow> nat" where
  "vrr_hash_list addr = unat (addr AND VRR_HASHMASK)"

definition upd_sock :: "nat \<Rightarrow> (vrr_sock \<Rightarrow> vrr_sock) \<Rightarrow> 'z sock_globals_scheme \<Rightarrow> 'z sock_globals_scheme" where
  "upd_sock i f s = s\<lparr>socks := (socks s)(i := map_option f (socks s i))\<rparr>"

definition sock_hold :: "nat \<Rightarrow> 'z sock_globals_scheme \<Rightarrow> 'z sock_globals_scheme" where
  "sock_hold i = upd_sock i (\<lambda>k. k\<lparr>sk_refcnt := sk_refcnt k + 1\<rparr>)"

definition sock_put :: "nat \<Rightarrow> 'z sock_globals_scheme \<Rightarrow> 'z sock_globals_scheme" where
  "sock_put i = upd_sock i (\<lambda>k. k\<lparr>sk_refcnt := sk_refcnt k - 1\<rparr>)"

definition has_addr :: "'z sock_globals_scheme \<Rightarrow> u32 \<Rightarrow> nat \<Rightarrow> bool" where
  "has_addr s addr i \<longleftrightarrow> map_option rem_addr (socks s i) = Some addr"

definition vrr_find_sock :: "u32 \<Rightarrow> 'z sock_globals_scheme \<Rightarrow> (nat option \<times> 'z sock_globals_scheme) option" where
  "vrr_find_sock addr s = do {
     s \<leftarrow> spin_lock vrr_socks_lock s;
     head \<leftarrow> idx (hlist s) (vrr_hash_list addr);
     let ret = first_match (has_addr s addr) head;
     let s = (case ret of None \<Rightarrow> s | Some i \<Rightarrow> sock_hold i s);
     s \<leftarrow> spin_unlock vrr_socks_lock s;
     Some (ret, s)
   }"

text \<open>\<open>sk_add_node\<close> takes a reference of its own; \<open>vrr_hash_sock\<close> takes another one.\<close>

definition vrr_hash_sock :: "nat \<Rightarrow> 'z sock_globals_scheme \<Rightarrow> 'z sock_globals_scheme option" where
  "vrr_hash_sock i s = do {
     sk \<leftarrow> socks s i;
     let h = vrr_hash_list (rem_addr sk);
     s \<leftarrow> spin_lock vrr_socks_lock s;
     head \<leftarrow> idx (hlist s) h;
     let s = sock_hold i (s\<lparr>hlist := (hlist s)[h := i # head]\<rparr>);
     s \<leftarrow> spin_unlock vrr_socks_lock s;
     Some (sock_hold i s)
   }"

text \<open>\<open>sk_del_node_init\<close> unlinks a hashed socket and drops the reference of the table.\<close>

definition vrr_unhash_sock :: "nat \<Rightarrow> 'z sock_globals_scheme \<Rightarrow> 'z sock_globals_scheme option" where
  "vrr_unhash_sock i s = do {
     s \<leftarrow> spin_lock vrr_socks_lock s;
     let s = (if \<exists>b \<in> set (hlist s). i \<in> set b
              then sock_put i (s\<lparr>hlist := map (removeAll i) (hlist s)\<rparr>) else s);
     s \<leftarrow> spin_unlock vrr_socks_lock s;
     Some (sock_put i s)
   }"

section \<open>Creating and connecting\<close>

definition vrr_create :: "kenv \<Rightarrow> nat \<Rightarrow> int \<Rightarrow> int \<Rightarrow> 'z sock_globals_scheme \<Rightarrow> int \<times> 'z sock_globals_scheme" where
  "vrr_create K i type proto s =
     (if proto \<noteq> 0 then (- EPROTONOSUPPORT, s)
      else if type \<noteq> SOCK_RAW then (- ESOCKTNOSUPPORT, s)
      else let (ok, s) = kmalloc K 600 s in
        if \<not> ok then (- ENOMEM, s)
        else (0, sock_hold i (s\<lparr>socks := (socks s)(i \<mapsto>
               \<lparr>rem_addr = 0, sk_state = SS_UNCONNECTED, sk_refcnt = 1, sk_receive_queue = []\<rparr>)\<rparr>)))"

definition vrr_connect_locked ::
  "nat \<Rightarrow> sockaddr_vrr option \<Rightarrow> int \<Rightarrow> 'z sock_globals_scheme \<Rightarrow> (int \<times> 'z sock_globals_scheme) option" where
  "vrr_connect_locked i addr addrlen s = do {
     sk \<leftarrow> socks s i;
     if sk_state sk = SS_CONNECTED then Some (- EISCONN, s)
     else case addr of
       None \<Rightarrow> Some (- EINVAL, s)
     | Some a \<Rightarrow>
         if addrlen \<noteq> sizeof_sockaddr_vrr then Some (- EINVAL, s)
         else if svrr_family a \<noteq> AF_VRR then Some (- EINVAL, s)
         else do {
           let s = upd_sock i (\<lambda>k. k\<lparr>rem_addr := svrr_addr a, sk_state := SS_CONNECTED\<rparr>) s;
           s \<leftarrow> vrr_hash_sock i s;
           Some (0, s) }
   }"

text \<open>The debug line reads \<open>addr->svrr_addr\<close> before anything is checked.\<close>

definition vrr_connect ::
  "nat \<Rightarrow> sockaddr_vrr option \<Rightarrow> int \<Rightarrow> 'z sock_globals_scheme \<Rightarrow> (int \<times> 'z sock_globals_scheme) option" where
  "vrr_connect i uaddr addrlen s = do {
     _ \<leftarrow> uaddr;
     vrr_connect_locked i uaddr addrlen s
   }"

section \<open>Receiving\<close>

definition vrr_advance_rx_queue :: "nat \<Rightarrow> 'z sock_globals_scheme \<Rightarrow> 'z sock_globals_scheme option" where
  "vrr_advance_rx_queue i s = do {
     sk \<leftarrow> socks s i;
     case sk_receive_queue sk of
       [] \<Rightarrow> Some s
     | skb # rest \<Rightarrow> Some (kfree_skb (skb_id skb) (upd_sock i (\<lambda>k. k\<lparr>sk_receive_queue := rest\<rparr>) s))
   }"

text \<open>
  The result of a receive call: it returns a status with the bytes copied and whether MSG_TRUNC is
  set, or it sleeps in \<open>wait_event_interruptible\<close> with the socket released. A waker that finds data or
  a changed state sends it back to the head of the loop, which is the beginning of the function.
\<close>

datatype recv_result = Returns int "u8 list" bool | Sleeps

text \<open>One round from \<open>restart\<close>: \<open>None\<close> in the first component sends the caller back to \<open>restart\<close>.\<close>

definition recv_round ::
  "bool \<Rightarrow> bool \<Rightarrow> bool \<Rightarrow> nat \<Rightarrow> nat \<Rightarrow> 'z sock_globals_scheme \<Rightarrow> (recv_result option \<times> 'z sock_globals_scheme) option" where
  "recv_round copy_fault dontwait peek i len s = do {
     sk \<leftarrow> socks s i;
     case sk_receive_queue sk of
       [] \<Rightarrow>
         if sk_state sk \<noteq> SS_CONNECTED then Some (Some (Returns (- EINTR) [] False), s)
         else if dontwait then Some (Some (Returns (- EWOULDBLOCK) [] False), s)
         else Some (Some Sleeps, s)
     | skb # _ \<Rightarrow> do {
         vh \<leftarrow> vrr_hdr skb;
         let sz = unat (data_len vh);
         if sz = 0 then do { s \<leftarrow> vrr_advance_rx_queue i s; Some (None, s) }
         else do {
           let trunc = (len < sz);
           let sz = (if len < sz then len else sz);
           bytes \<leftarrow> skb_copy_bits skb sizeof_vrr_header sz;
           if copy_fault then Some (Some (Returns (- EFAULT) [] trunc), s)
           else do {
             s \<leftarrow> (if peek then Some s else vrr_advance_rx_queue i s);
             Some (Some (Returns (int sz) bytes trunc), s) } } }
   }"

text \<open>Each trip back to \<open>restart\<close> removes a packet, so one round more than the queue is long is enough.\<close>

fun recv_loop ::
  "nat \<Rightarrow> bool \<Rightarrow> bool \<Rightarrow> bool \<Rightarrow> nat \<Rightarrow> nat \<Rightarrow> 'z sock_globals_scheme \<Rightarrow> (recv_result \<times> 'z sock_globals_scheme) option" where
  "recv_loop 0 cf dw pk i len s = None"
| "recv_loop (Suc fuel) cf dw pk i len s = do {
     (r, s) \<leftarrow> recv_round cf dw pk i len s;
     case r of Some res \<Rightarrow> Some (res, s) | None \<Rightarrow> recv_loop fuel cf dw pk i len s
   }"

definition vrr_recvmsg ::
  "bool \<Rightarrow> bool \<Rightarrow> bool \<Rightarrow> nat \<Rightarrow> nat \<Rightarrow> 'z sock_globals_scheme \<Rightarrow> (recv_result \<times> 'z sock_globals_scheme) option" where
  "vrr_recvmsg copy_fault dontwait peek i len s = do {
     sk \<leftarrow> socks s i;
     recv_loop (Suc (length (sk_receive_queue sk))) copy_fault dontwait peek i len s
   }"

abbreviation (input) NET_RX_SUCCESS :: int where "NET_RX_SUCCESS \<equiv> 0"
abbreviation (input) NET_RX_DROP :: int where "NET_RX_DROP \<equiv> 1"

definition vrr_backlog_rcv ::
  "(nat \<Rightarrow> sk_buff \<Rightarrow> 'z sock_globals_scheme \<Rightarrow> int \<times> 'z sock_globals_scheme) \<Rightarrow>
     nat \<Rightarrow> sk_buff \<Rightarrow> 'z sock_globals_scheme \<Rightarrow> int \<times> 'z sock_globals_scheme" where
  "vrr_backlog_rcv sock_queue_rcv_skb i skb s =
     (let (err, s) = sock_queue_rcv_skb i skb s;
          s = (if err < 0 then kfree_skb (skb_id skb) s else s)
      in (if err \<noteq> 0 then NET_RX_DROP else NET_RX_SUCCESS, s))"

definition vrr_release ::
  "(nat \<Rightarrow> 'z sock_globals_scheme \<Rightarrow> 'z sock_globals_scheme option) \<Rightarrow> nat \<Rightarrow> 'z sock_globals_scheme \<Rightarrow>
     (int \<times> 'z sock_globals_scheme) option" where
  "vrr_release sk_common_release i s = do { s \<leftarrow> sk_common_release i s; Some (0, s) }"

section \<open>Sending\<close>

text \<open>
  \<open>user\<close> is what the caller's buffer holds, or \<open>None\<close> when \<open>memcpy_fromiovec\<close> faults; \<open>len\<close> its length. A
  length that does not fit the 32-bit size of the buffer has no defined result.
\<close>

definition vrr_sendmsg ::
  "kenv \<Rightarrow> sockaddr_vrr option \<Rightarrow> u8 list option \<Rightarrow> nat \<Rightarrow> 'z sock_globals_scheme \<Rightarrow> (int \<times> 'z sock_globals_scheme) option" where
  "vrr_sendmsg K dest user len s =
     (case dest of
        None \<Rightarrow> Some (- EDESTADDRREQ, s)
      | Some d \<Rightarrow> do {
          me \<leftarrow> vrr_get_node s;
          let (stack, s) = uninit K s;
          (mac, s) \<leftarrow>
            (if svrr_addr d \<noteq> vn_id me then do {
               (nh, s) \<leftarrow> rt_get_next (svrr_addr d) s;
               if nh = 0 then Some (None, s) else pset_get_mac nh s }
             else Some (Some (junk_mac stack 0), s));
          case mac of
            None \<Rightarrow> Some (- EHOSTUNREACH, s)
          | Some m \<Rightarrow> do {
              id \<leftarrow> get_vrr_id s;
              _ \<leftarrow> (if len + VRR_SKB_RESERVE < 2 ^ 31 then Some () else None);
              let (skb, s) = vrr_skb_alloc K [] s;
              case skb of
                None \<Rightarrow> Some (- EINVAL, s)
              | Some skb \<Rightarrow> do {
                  ((ret, skb), s) \<leftarrow> build_header K skb \<lparr>pk_src = id, pk_dst = svrr_addr d, pk_data_len = of_nat len,
                     pk_pkt_type = VRR_DATA, pk_dest_mac = m\<rparr> s;
                  case user of
                    None \<Rightarrow> Some (- EFAULT, s)
                  | Some bytes \<Rightarrow> do {
                      (_, s) \<leftarrow> vrr_output K (skb\<lparr>skb_data := skb_data skb @ bytes\<rparr>) VRR_DATA s;
                      Some (if len \<noteq> 0 then int len else ret, kfree_skb (skb_id skb) s) } } } })"

section \<open>The table\<close>

text \<open>Every bucket holds only sockets whose address hashes there, and none twice.\<close>

definition socks_inv :: "'z sock_globals_scheme \<Rightarrow> bool" where
  "socks_inv s \<longleftrightarrow> length (hlist s) = VRR_HASHSIZE \<and>
     (\<forall>h < VRR_HASHSIZE. distinct (hlist s ! h) \<and>
        (\<forall>i \<in> set (hlist s ! h). \<exists>sk. socks s i = Some sk \<and> sk_state sk = SS_CONNECTED
           \<and> vrr_hash_list (rem_addr sk) = h))"

lemma vrr_hash_list_less: "vrr_hash_list addr < VRR_HASHSIZE"
proof -
  have "addr AND 31 \<le> (31 :: u32)" by (rule word_and_le1)
  then have "unat (addr AND 31) \<le> 31" by (simp add: word_le_nat_alt)
  then show ?thesis by (simp add: vrr_hash_list_def)
qed

lemma upd_sock_sel [simp]:
  "hlist (upd_sock i f s) = hlist s" "held (upd_sock i f s) = held s" "io (upd_sock i f s) = io s"
  "socks (upd_sock i f s) j = (if j = i then map_option f (socks s i) else socks s j)"
  by (simp_all add: upd_sock_def)

lemma sock_count_sel [simp]:
  "hlist (sock_hold i s) = hlist s" "held (sock_hold i s) = held s"
  "hlist (sock_put i s) = hlist s" "held (sock_put i s) = held s"
  by (simp_all add: sock_hold_def sock_put_def)

section \<open>What the socket calls change\<close>

definition sock_only :: "'z sock_globals_scheme \<Rightarrow> 'z sock_globals_scheme \<Rightarrow> bool" where
  "sock_only s t \<longleftrightarrow> t = s\<lparr>io := io t, socks := socks t, hlist := hlist t\<rparr>"

lemma sock_onlyE:
  assumes "sock_only s t"
  obtains i k h where "t = s\<lparr>io := i, socks := k, hlist := h\<rparr>"
  using assms unfolding sock_only_def by blast

lemma sock_onlyI [simp]: "sock_only s (s\<lparr>io := i, socks := k, hlist := h\<rparr>)" "sock_only s s"
  "sock_only s (upd_sock j f s)" "sock_only s (s\<lparr>socks := k\<rparr>)" "sock_only s (s\<lparr>hlist := h\<rparr>)"
  by (simp_all add: sock_only_def upd_sock_def)

lemma sock_only_io: "io_only s t \<Longrightarrow> sock_only s t"
  by (auto simp: sock_only_def elim!: io_onlyE)

lemma sock_only_trans: "sock_only s t \<Longrightarrow> sock_only t u \<Longrightarrow> sock_only s u"
  by (elim sock_onlyE) (simp add: sock_only_def)

lemma sock_only_counts [simp]: "sock_only s (sock_hold i s)" "sock_only s (sock_put i s)"
  by (simp_all add: sock_hold_def sock_put_def)

text \<open>Updates that leave address and state of a socket alone keep the table's invariant.\<close>

lemma socks_inv_upd:
  assumes "socks_inv s" "\<And>k. rem_addr (f k) = rem_addr k \<and> sk_state (f k) = sk_state k"
  shows "socks_inv (upd_sock i f s)"
  unfolding socks_inv_def
proof (intro conjI allI impI ballI)
  show "length (hlist (upd_sock i f s)) = VRR_HASHSIZE" using assms(1) by (simp add: socks_inv_def)
  fix h assume h: "h < VRR_HASHSIZE"
  show "distinct (hlist (upd_sock i f s) ! h)" using assms(1) h by (simp add: socks_inv_def)
  fix j assume "j \<in> set (hlist (upd_sock i f s) ! h)"
  then obtain sk where "socks s j = Some sk" "sk_state sk = SS_CONNECTED" "vrr_hash_list (rem_addr sk) = h"
    using assms(1) h by (auto simp: socks_inv_def)
  then show "\<exists>sk. socks (upd_sock i f s) j = Some sk \<and> sk_state sk = SS_CONNECTED \<and> vrr_hash_list (rem_addr sk) = h"
    using assms(2) by auto
qed

lemma socks_inv_counts: "socks_inv s \<Longrightarrow> socks_inv (sock_hold i s)" "socks_inv s \<Longrightarrow> socks_inv (sock_put i s)"
  unfolding sock_hold_def sock_put_def by (rule socks_inv_upd; simp)+

lemma socks_inv_cong: "socks t = socks s \<Longrightarrow> hlist t = hlist s \<Longrightarrow> socks_inv t = socks_inv s"
  by (simp add: socks_inv_def)

text \<open>Looking a socket up: the first one of its bucket with that address, and a reference to it.\<close>

lemma upd_sock_held: "upd_sock i f (s\<lparr>held := h\<rparr>) = (upd_sock i f s)\<lparr>held := h\<rparr>"
  by (simp add: upd_sock_def)

lemma vrr_find_sock_run [op_simps]:
  fixes addr :: u32
  assumes "\<not> held s vrr_socks_lock" "socks_inv s"
  defines "found \<equiv> first_match (has_addr s addr) (hlist s ! vrr_hash_list addr)"
  shows "vrr_find_sock addr s = Some (found, case found of None \<Rightarrow> s | Some i \<Rightarrow> sock_hold i s)"
proof -
  have "has_addr (s\<lparr>held := h\<rparr>) addr = has_addr s addr" for h by (simp add: has_addr_def fun_eq_iff)
  then show ?thesis
    using assms(1,2) vrr_hash_list_less [of addr] unfolding assms(3)
    by (auto simp: vrr_find_sock_def spin_lock_def spin_unlock_def idx_def socks_inv_def held_idem sock_hold_def upd_sock_held
        fun_upd_idem upd_sock_def split: option.split)
qed

lemma vrr_hash_sock_run [op_simps]:
  assumes "\<not> held s vrr_socks_lock" "socks s i = Some sk" "length (hlist s) = VRR_HASHSIZE"
  defines "h \<equiv> vrr_hash_list (rem_addr sk)"
  shows "vrr_hash_sock i s = Some (sock_hold i (sock_hold i (s\<lparr>hlist := (hlist s)[h := i # hlist s ! h]\<rparr>)))"
  using assms(1-3) vrr_hash_list_less [of "rem_addr sk"] unfolding assms(4)
  by (auto simp: vrr_hash_sock_def spin_lock_def spin_unlock_def idx_def sock_hold_def upd_sock_def fun_upd_idem Let_def)

text \<open>Which socket a lookup finds, as a function of the state.\<close>

definition found_sock :: "'z sock_globals_scheme \<Rightarrow> u32 \<Rightarrow> nat option" where
  "found_sock s addr = first_match (has_addr s addr) (hlist s ! vrr_hash_list addr)"

lemma first_match_cong: "(\<And>x. x \<in> set xs \<Longrightarrow> P x = Q x) \<Longrightarrow> first_match P xs = first_match Q xs"
  by (induction xs) auto

definition connected :: "nat \<Rightarrow> u32 \<Rightarrow> 'z sock_globals_scheme \<Rightarrow> 'z sock_globals_scheme" where
  "connected i a s = (let h = vrr_hash_list a in
     upd_sock i (\<lambda>k. k\<lparr>rem_addr := a, sk_state := SS_CONNECTED, sk_refcnt := sk_refcnt k + 2\<rparr>)
       (s\<lparr>hlist := (hlist s)[h := i # hlist s ! h]\<rparr>))"

lemma vrr_connect_run:
  assumes "\<not> held s vrr_socks_lock" "socks_inv s" "socks s i = Some sk"
  shows "vrr_connect i (Some a) len s =
    (if sk_state sk = SS_CONNECTED then Some (- EISCONN, s)
     else if len \<noteq> sizeof_sockaddr_vrr \<or> svrr_family a \<noteq> AF_VRR then Some (- EINVAL, s)
     else Some (0, connected i (svrr_addr a) s))"
proof -
  have l: "length (hlist s) = VRR_HASHSIZE" using assms(2) by (simp add: socks_inv_def)
  show ?thesis
    using assms(1,3) l
    by (auto simp: vrr_connect_def vrr_connect_locked_def vrr_hash_sock_run connected_def Let_def upd_sock_def sock_hold_def
        add.commute)
qed

lemma unconnected_not_hashed:
  "socks_inv s \<Longrightarrow> socks s i = Some sk \<Longrightarrow> sk_state sk \<noteq> SS_CONNECTED \<Longrightarrow> h < VRR_HASHSIZE \<Longrightarrow> i \<notin> set (hlist s ! h)"
  by (force simp: socks_inv_def)

lemma socks_inv_connected:
  assumes "socks_inv s" "socks s i = Some sk" "sk_state sk \<noteq> SS_CONNECTED"
  shows "socks_inv (connected i a s)"
  unfolding socks_inv_def
proof (intro conjI allI impI ballI)
  show "length (hlist (connected i a s)) = VRR_HASHSIZE" using assms(1) by (simp add: connected_def socks_inv_def Let_def)
  fix h assume h: "h < VRR_HASHSIZE"
  have l: "length (hlist s) = VRR_HASHSIZE" and hl: "vrr_hash_list a < VRR_HASHSIZE"
    using assms(1) vrr_hash_list_less by (simp_all add: socks_inv_def)
  have new: "i \<notin> set (hlist s ! h)" by (rule unconnected_not_hashed [OF assms h])
  have b: "hlist (connected i a s) ! h = (if h = vrr_hash_list a then i # hlist s ! h else hlist s ! h)"
    using l hl h by (simp add: connected_def Let_def nth_list_update)
  show "distinct (hlist (connected i a s) ! h)" using assms(1) h new unfolding b by (auto simp: socks_inv_def)
  fix j assume j: "j \<in> set (hlist (connected i a s) ! h)"
  show "\<exists>sk. socks (connected i a s) j = Some sk \<and> sk_state sk = SS_CONNECTED \<and> vrr_hash_list (rem_addr sk) = h"
  proof (cases "j = i")
    case True
    then have "h = vrr_hash_list a" using j b new by (auto split: if_splits)
    then show ?thesis using True assms(2) by (simp add: connected_def Let_def)
  next
    case False
    then have "j \<in> set (hlist s ! h)" using j b by (auto split: if_splits)
    then show ?thesis using assms(1) h False by (auto simp: socks_inv_def connected_def Let_def)
  qed
qed

lemma found_connected:
  assumes "socks_inv s" "socks s i = Some sk" "sk_state sk \<noteq> SS_CONNECTED"
  shows "found_sock (connected i a s) b = (if b = a then Some i else found_sock s b)"
proof -
  have l: "length (hlist s) = VRR_HASHSIZE" and hl: "vrr_hash_list a < VRR_HASHSIZE" "vrr_hash_list b < VRR_HASHSIZE"
    using assms(1) vrr_hash_list_less by (simp_all add: socks_inv_def)
  have bk: "hlist (connected i a s) ! vrr_hash_list b =
      (if vrr_hash_list b = vrr_hash_list a then i # hlist s ! vrr_hash_list b else hlist s ! vrr_hash_list b)"
    using l hl by (simp add: connected_def Let_def nth_list_update)
  have i: "has_addr (connected i a s) b i \<longleftrightarrow> b = a" using assms(2) by (auto simp: has_addr_def connected_def Let_def)
  have "first_match (has_addr (connected i a s) b) (hlist s ! vrr_hash_list b) = found_sock s b"
    unfolding found_sock_def using unconnected_not_hashed [OF assms hl(2)]
    by (intro first_match_cong) (auto simp: has_addr_def connected_def Let_def)
  then show ?thesis unfolding found_sock_def [of "connected i a s"] bk using i by (cases "b = a") auto
qed

text \<open>The node of the examples with one fresh socket.\<close>

definition demo_sock :: sock_globals where
  "demo_sock = core_globals.extend demo_core (sock_globals.fields
     [3 \<mapsto> \<lparr>rem_addr = 0, sk_state = SS_UNCONNECTED, sk_refcnt = 2, sk_receive_queue = []\<rparr>] (replicate VRR_HASHSIZE []))"

lemma demo_sock_ok [simp]: "socks_inv demo_sock" "\<not> held demo_sock l"
  by (simp_all add: demo_sock_def demo_core_def core_globals.defs sock_globals.defs socks_inv_def)

section \<open>Properties\<close>

text \<open>
  C17: connecting a socket. \<open>vrr_connect\<close> refuses a connected socket, a wrong address length and a wrong
  family, changing nothing; otherwise the socket becomes the one \<open>vrr_find_sock\<close> returns for that
  address, with two more references, while the lookup of every other address is unchanged.
\<close>

theorem connect_then_find:
  assumes "\<not> held s vrr_socks_lock" "socks_inv s" "socks s i = Some sk"
  shows "(sk_state sk = SS_CONNECTED \<longrightarrow> vrr_connect i (Some a) len s = Some (- EISCONN, s))
    \<and> (sk_state sk \<noteq> SS_CONNECTED \<and> (len \<noteq> sizeof_sockaddr_vrr \<or> svrr_family a \<noteq> AF_VRR) \<longrightarrow>
        vrr_connect i (Some a) len s = Some (- EINVAL, s))
    \<and> (sk_state sk \<noteq> SS_CONNECTED \<and> len = sizeof_sockaddr_vrr \<and> svrr_family a = AF_VRR \<longrightarrow>
        (\<exists>t. vrr_connect i (Some a) len s = Some (0, t) \<and> socks_inv t
           \<and> map_option sk_refcnt (socks t i) = Some (sk_refcnt sk + 2)
           \<and> (\<exists>u. vrr_find_sock (svrr_addr a) t = Some (Some i, u))
           \<and> (\<forall>b. b \<noteq> svrr_addr a \<longrightarrow> map_option fst (vrr_find_sock b t) = map_option fst (vrr_find_sock b s))))"
proof -
  define t where "t = connected i (svrr_addr a) s"
  have "socks_inv t \<and> (\<exists>u. vrr_find_sock (svrr_addr a) t = Some (Some i, u))
      \<and> (\<forall>b. b \<noteq> svrr_addr a \<longrightarrow> map_option fst (vrr_find_sock b t) = map_option fst (vrr_find_sock b s))"
    if st: "sk_state sk \<noteq> SS_CONNECTED"
  proof -
    have inv: "socks_inv t" unfolding t_def by (rule socks_inv_connected [OF assms(2,3) st])
    have u: "\<not> held t vrr_socks_lock" using assms(1) by (simp add: t_def connected_def Let_def)
    have "found_sock t b = (if b = svrr_addr a then Some i else found_sock s b)" for b
      unfolding t_def by (rule found_connected [OF assms(2,3) st])
    then show ?thesis
      using inv vrr_find_sock_run [OF u inv, folded found_sock_def] vrr_find_sock_run [OF assms(1,2), folded found_sock_def]
      by simp
  qed
  moreover have "map_option sk_refcnt (socks t i) = Some (sk_refcnt sk + 2)"
    using assms(3) by (simp add: t_def connected_def Let_def)
  ultimately show ?thesis using vrr_connect_run [OF assms] by (simp add: t_def)
qed

theorem connect_then_find_witness:
  "\<exists>t u. vrr_connect 3 (Some \<lparr>svrr_family = AF_VRR, svrr_addr = 9\<rparr>) sizeof_sockaddr_vrr demo_sock = Some (0, t)
     \<and> vrr_find_sock 9 t = Some (Some 3, u)"
proof -
  have "socks demo_sock 3 = Some \<lparr>rem_addr = 0, sk_state = SS_UNCONNECTED, sk_refcnt = 2, sk_receive_queue = []\<rparr>"
    by (simp add: demo_sock_def core_globals.defs sock_globals.defs)
  then show ?thesis
    using connect_then_find [of demo_sock 3 _ "\<lparr>svrr_family = AF_VRR, svrr_addr = 9\<rparr>" sizeof_sockaddr_vrr] by fastforce
qed

text \<open>Taking a socket out of the table.\<close>

lemma first_match_removeAll: "first_match P xs \<noteq> Some i \<Longrightarrow> first_match P (removeAll i xs) = first_match P xs"
  by (induction xs) auto

definition hashed :: "'z sock_globals_scheme \<Rightarrow> nat \<Rightarrow> bool" where
  "hashed s i \<longleftrightarrow> (\<exists>b \<in> set (hlist s). i \<in> set b)"

lemma vrr_unhash_sock_run:
  assumes "\<not> held s vrr_socks_lock" "socks s i = Some sk"
  shows "vrr_unhash_sock i s = Some (upd_sock i (\<lambda>k. k\<lparr>sk_refcnt := sk_refcnt k - (if hashed s i then 2 else 1)\<rparr>)
     (s\<lparr>hlist := map (removeAll i) (hlist s)\<rparr>))"
proof (cases "hashed s i")
  case True
  then show ?thesis
    using assms by (auto simp: vrr_unhash_sock_def spin_lock_def spin_unlock_def hashed_def sock_put_def upd_sock_def fun_upd_idem Let_def)
next
  case False
  then have "map (removeAll i) (hlist s) = hlist s" by (auto simp: hashed_def intro!: map_idI removeAll_id)
  then show ?thesis
    using assms False by (auto simp: vrr_unhash_sock_def spin_lock_def spin_unlock_def hashed_def sock_put_def upd_sock_def fun_upd_idem Let_def)
qed

text \<open>
  C33: taking a socket out of the table undoes connecting it. Afterwards no bucket holds the socket, every
  lookup that found another socket finds it still, the table is well formed, the lock is free, and the
  socket has lost the references that hashing took: two if it was in the table, else one.
\<close>

theorem unhash_undoes_connect:
  assumes "\<not> held s vrr_socks_lock" "socks_inv s" "socks s i = Some sk"
  shows "\<exists>t. vrr_unhash_sock i s = Some t \<and> socks_inv t \<and> held t = held s \<and> \<not> hashed t i
     \<and> (\<forall>a. found_sock s a \<noteq> Some i \<longrightarrow> found_sock t a = found_sock s a) \<and> (\<forall>a. found_sock t a \<noteq> Some i)
     \<and> socks t i = Some (sk\<lparr>sk_refcnt := sk_refcnt sk - (if hashed s i then 2 else 1)\<rparr>)"
proof -
  define u where "u = s\<lparr>hlist := map (removeAll i) (hlist s)\<rparr>"
  define f where "f = (\<lambda>k :: vrr_sock. k\<lparr>sk_refcnt := sk_refcnt k - (if hashed s i then 2 else 1)\<rparr>)"
  define t where "t = upd_sock i f u"
  have run: "vrr_unhash_sock i s = Some t" using vrr_unhash_sock_run [OF assms(1,3)] by (simp add: t_def u_def f_def)
  have l: "length (hlist s) = VRR_HASHSIZE" using assms(2) by (simp add: socks_inv_def)
  have "socks_inv u" using assms(2) by (auto simp: socks_inv_def u_def distinct_removeAll)
  then have inv: "socks_inv t" unfolding t_def by (rule socks_inv_upd) (simp add: f_def)
  have bucket: "hlist t ! vrr_hash_list a = removeAll i (hlist s ! vrr_hash_list a)" for a
    using l vrr_hash_list_less [of a] by (simp add: t_def u_def)
  have addr: "has_addr t a = has_addr s a" for a
    by (cases "socks s i") (auto simp: has_addr_def fun_eq_iff t_def u_def f_def)
  have "found_sock t a = found_sock s a" if "found_sock s a \<noteq> Some i" for a
    using first_match_removeAll that by (simp add: found_sock_def bucket addr)
  moreover have "found_sock t a \<noteq> Some i" for a
    unfolding found_sock_def bucket by (auto dest: first_match_SomeD)
  moreover have "\<not> hashed t i" by (simp add: hashed_def t_def u_def)
  moreover have "socks t i = Some (sk\<lparr>sk_refcnt := sk_refcnt sk - (if hashed s i then 2 else 1)\<rparr>)" using assms(3) by (simp add: t_def u_def f_def)
  moreover have "held t = held s" by (simp add: t_def u_def)
  ultimately show ?thesis using run inv by blast
qed

theorem unhash_undoes_connect_witness:
  "\<exists>t. vrr_unhash_sock 3 (connected 3 9 demo_sock) = Some t \<and> found_sock t 9 \<noteq> Some 3 \<and> map_option sk_refcnt (socks t 3) = Some 2"
proof -
  obtain sk where sk: "socks demo_sock 3 = Some sk" "sk_state sk \<noteq> SS_CONNECTED" "sk_refcnt sk = 2"
    by (simp add: demo_sock_def demo_core_def core_globals.defs sock_globals.defs)
  have inv: "socks_inv (connected 3 9 demo_sock)" by (rule socks_inv_connected [OF _ sk(1,2)]) simp
  have c: "socks (connected 3 9 demo_sock) 3 = Some (sk\<lparr>rem_addr := 9, sk_state := SS_CONNECTED, sk_refcnt := 4\<rparr>)"
    "\<not> held (connected 3 9 demo_sock) vrr_socks_lock"
    using sk by (simp_all add: connected_def Let_def)
  have "found_sock (connected 3 9 demo_sock) 9 = Some 3" using found_connected [OF _ sk(1,2), of 9 9] by simp
  then have "3 \<in> set (hlist (connected 3 9 demo_sock) ! vrr_hash_list 9)" by (auto simp: found_sock_def dest: first_match_SomeD)
  moreover have "vrr_hash_list 9 < length (hlist (connected 3 9 demo_sock))" using inv vrr_hash_list_less by (simp add: socks_inv_def)
  ultimately have "hashed (connected 3 9 demo_sock) 3" unfolding hashed_def using nth_mem by blast
  then show ?thesis using unhash_undoes_connect [OF c(2) inv c(1)] by auto
qed

end
