(* ===== verification/Receive.thy ===== *)
theory Receive
  imports Sockets
begin

text \<open>
  Receiving (\<open>vrr_input.c\<close>): the dispatch by packet type, one handler per type, the list of pending
  neighbour updates a hello appends to, and the work item that runs the link state machine on them.
  A local variable whose \<open>skb_copy_bits\<close> fails keeps what the stack held: the second argument of
  \<open>read_u32\<close>. The delivery of a data packet to a socket (\<open>sk_receive_skb\<close>) is the kernel's and an
  argument of the handlers. The sources pass the undeclared identifier \<open>null\<close> as the sender of a
  teardown; it is read as 0, the value of \<open>NULL\<close>. \<open>update_work\<close> says that \<open>schedule_work\<close> has queued the
  work item and it has not started yet.
\<close>

record input_globals = sock_globals +
  pset_updates :: "pset_update list"
  update_work :: bool

type_synonym 'z rx_layer = "nat \<Rightarrow> sk_buff \<Rightarrow> 'z input_globals_scheme \<Rightarrow> int \<times> 'z input_globals_scheme"

section \<open>The link state machine\<close>

definition hello_trans :: "u32 list list" where
  "hello_trans =
     [[PSET_LINKED, PSET_LINKED, PSET_FAILED],
      [PSET_LINKED, PSET_LINKED, PSET_PENDING],
      [PSET_FAILED, PSET_PENDING, PSET_PENDING],
      [PSET_FAILED, PSET_LINKED, PSET_PENDING]]"

definition next_link_state :: "u32 \<Rightarrow> nat \<Rightarrow> u32 option" where
  "next_link_state cur tr = do { row \<leftarrow> idx hello_trans (unat cur); idx row tr }"

definition vrr_init_rcv :: "'z input_globals_scheme \<Rightarrow> 'z input_globals_scheme" where
  "vrr_init_rcv s = s\<lparr>pset_updates := []\<rparr>"

text \<open>
  One turn of the loop of \<open>pset_update_handler\<close>, for the update \<open>tmp\<close>: look the neighbour up, record its new
  state (\<open>record_link\<close>), and ask a newly linked active neighbour to connect this node (\<open>ask_proxy\<close>).
\<close>

definition record_link ::
  "kenv \<Rightarrow> pset_update \<Rightarrow> u32 \<Rightarrow> u32 \<Rightarrow> u32 \<Rightarrow> 'z input_globals_scheme \<Rightarrow> 'z input_globals_scheme option" where
  "record_link K tmp cur_state next_state cur_active s =
     (if cur_state = PSET_UNKNOWN then do {
        (_, s) \<leftarrow> pset_add K (pu_node tmp) (pu_mac tmp) next_state (pu_active tmp) s;
        pset_state_update s }
      else if cur_state \<noteq> next_state \<or> cur_active \<noteq> pu_active tmp then do {
        (_, s) \<leftarrow> pset_update_status (pu_node tmp) next_state (pu_active tmp) s;
        pset_state_update s }
      else Some s)"

definition ask_proxy :: "kenv \<Rightarrow> pset_update \<Rightarrow> u32 \<Rightarrow> 'z input_globals_scheme \<Rightarrow> 'z input_globals_scheme option" where
  "ask_proxy K tmp next_state s = do {
     me \<leftarrow> vrr_get_node s;
     if vn_active me = 0 \<and> pu_active tmp \<noteq> 0 \<and> next_state = PSET_LINKED then do {
       (_, s) \<leftarrow> send_setup_req K (vn_id me) (vn_id me) (pu_node tmp) s;
       Some s }
     else Some s
   }"

definition apply_update :: "kenv \<Rightarrow> pset_update \<Rightarrow> 'z input_globals_scheme \<Rightarrow> 'z input_globals_scheme option" where
  "apply_update K tmp s = do {
     (cur_state, s) \<leftarrow> pset_get_status (pu_node tmp) s;
     next_state \<leftarrow> next_link_state cur_state (pu_trans tmp);
     (cur_active, s) \<leftarrow> pset_get_active (pu_node tmp) s;
     s \<leftarrow> record_link K tmp cur_state next_state cur_active s;
     ask_proxy K tmp next_state s
   }"

fun apply_updates :: "kenv \<Rightarrow> pset_update list \<Rightarrow> 'z input_globals_scheme \<Rightarrow> 'z input_globals_scheme option" where
  "apply_updates K [] s = Some s"
| "apply_updates K (tmp # rest) s = do { s \<leftarrow> apply_update K tmp s; apply_updates K rest s }"

definition pset_update_handler :: "kenv \<Rightarrow> 'z input_globals_scheme \<Rightarrow> 'z input_globals_scheme option" where
  "pset_update_handler K s = do {
     s \<leftarrow> apply_updates K (pset_updates s) s;
     Some (s\<lparr>pset_updates := []\<rparr>)
   }"

section \<open>Setup and setup failure at the node itself\<close>

text \<open>The next hop of the four setup handlers: the destination if it is a neighbour, else towards the proxy.\<close>

definition setup_next_hop :: "u32 \<Rightarrow> u32 \<Rightarrow> 'z input_globals_scheme \<Rightarrow> (u32 \<times> 'z input_globals_scheme) option" where
  "setup_next_hop dst proxy s = do {
     (st, s) \<leftarrow> pset_get_status dst s;
     if st = PSET_UNKNOWN then rt_get_next proxy s else Some (dst, s)
   }"

definition vrr_local_rcv_setup ::
  "kenv \<Rightarrow> u32 \<Rightarrow> u32 \<Rightarrow> u32 \<Rightarrow> nat \<Rightarrow> u32 list \<Rightarrow> 'z input_globals_scheme \<Rightarrow> (int \<times> 'z input_globals_scheme) option" where
  "vrr_local_rcv_setup K dst pid proxy n vset' s = do {
     src \<leftarrow> get_vrr_id s;
     (nh, s) \<leftarrow> setup_next_hop dst proxy s;
     (added, s) \<leftarrow> rt_add_route K src dst src nh pid s;
     if added = 0 then do { (_, s) \<leftarrow> tear_down_path K pid src 0 s; Some (0, s) }
     else if nh \<noteq> 0 then do { (_, s) \<leftarrow> send_setup K src dst pid proxy n vset' nh s; Some (0, s) }
     else Some (0, s)
   }"

text \<open>\<open>ovset\<close> has room for \<open>n\<close> words; one is written into it, before any check.\<close>

definition vrr_local_rcv_setup_fail ::
  "kenv \<Rightarrow> u32 \<Rightarrow> u32 \<Rightarrow> nat \<Rightarrow> u32 list \<Rightarrow> 'z input_globals_scheme \<Rightarrow> (int \<times> 'z input_globals_scheme) option" where
  "vrr_local_rcv_setup_fail K dst proxy n vset' s = do {
     src \<leftarrow> get_vrr_id s;
     let (ok, s) = kmalloc K (4 * n) s;
     (nh, s) \<leftarrow> setup_next_hop dst proxy s;
     _ \<leftarrow> (if ok \<and> n \<noteq> 0 then Some () else None);
     (_, s) \<leftarrow> vrr_add K UINT_MAX 1 [dst] s;
     if nh \<noteq> 0 then do { (_, s) \<leftarrow> send_setup_fail K src dst proxy n vset' nh s; Some (0, s) }
     else Some (0, s)
   }"

section \<open>Handlers\<close>

definition vrr_rcv_data ::
  "kenv \<Rightarrow> 'z rx_layer \<Rightarrow> sk_buff \<Rightarrow> vrr_header \<Rightarrow> 'z input_globals_scheme \<Rightarrow> (int \<times> 'z input_globals_scheme) option" where
  "vrr_rcv_data K sk_receive_skb skb vh s = do {
     me \<leftarrow> get_vrr_id s;
     if dest_id vh = me then do {
       (sk, s) \<leftarrow> vrr_find_sock (src_id vh) s;
       case sk of
         Some i \<Rightarrow> (let (ret, s) = sk_receive_skb i skb s in Some (ret, sock_put i s))
       | None \<Rightarrow> Some (-1, s) }
     else do { (_, s) \<leftarrow> vrr_forward K skb vh s; Some (0, s) }
   }"

text \<open>
  The scan of one received array: the index loop sets \<open>trans\<close> when it meets this node's identifier. An
  array of size 0 is not read. The node pointer is not NULL here: the dispatcher has written through it.
\<close>

definition scan :: "u32 \<Rightarrow> u32 list \<Rightarrow> nat \<Rightarrow> nat \<Rightarrow> nat" where
  "scan me xs new tr = (if me \<in> set xs then new else tr)"

text \<open>Lines 140 to 203: the sender's activity and the transition, or \<open>None\<close> for the early return with -1.\<close>

definition hello_scan :: "u32 \<Rightarrow> (nat \<Rightarrow> u32) \<Rightarrow> sk_buff \<Rightarrow> (u32 \<times> nat) option" where
  "hello_scan me stack skb =
     (let off = sizeof_vrr_header;
          active = read_u32 skb off (stack 0);
          la_size = read_u32 skb (off + 4) (stack 1);
          lna_size = read_u32 skb (off + 8) (stack 2);
          p_size = read_u32 skb (off + 12) (stack 3) in
      if la_size > of_nat VRR_PSET_SIZE then None
      else if lna_size > of_nat VRR_PSET_SIZE then None
      else if p_size > of_nat VRR_PSET_SIZE then None
      else
        let la_off = off + 16;
            la = read_u32s skb la_off (unat la_size) (\<lambda>i. stack (4 + i));
            lna_off = la_off + 4 * unat la_size;
            lna = read_u32s skb lna_off (unat lna_size) (\<lambda>i. stack (24 + i));
            p_off = lna_off + 4 * unat lna_size;
            p = read_u32s skb p_off (unat p_size) (\<lambda>i. stack (44 + i)) in
        Some (active, scan me p TRANS_PENDING (scan me lna TRANS_LINKED (scan me la TRANS_LINKED TRANS_MISSING))))"

definition vrr_rcv_hello ::
  "kenv \<Rightarrow> sk_buff \<Rightarrow> vrr_header \<Rightarrow> 'z input_globals_scheme \<Rightarrow> (int \<times> 'z input_globals_scheme) option" where
  "vrr_rcv_hello K skb vh s = do {
     me \<leftarrow> vrr_get_node s;
     let (stack, s) = uninit K s;
     case hello_scan (vn_id me) stack skb of
       None \<Rightarrow> Some (-1, s)
     | Some (active, tr) \<Rightarrow>
         (let (ok, s) = kmalloc K 40 s in
          if \<not> ok then Some (-1, s)
          else Some (0, s\<lparr>pset_updates := pset_updates s @
                 [\<lparr>pu_node = src_id vh, pu_mac = skb_src_mac skb, pu_trans = tr, pu_active = active\<rparr>],
                 update_work := True\<rparr>))
   }"

text \<open>
  Reading the virtual set of a packet: its size, which is checked, then an array of \<open>extra\<close> more cells
  than that. \<open>None\<close> in the first component is the early return with -1.
\<close>

definition read_vset ::
  "kenv \<Rightarrow> sk_buff \<Rightarrow> nat \<Rightarrow> u32 \<Rightarrow> nat \<Rightarrow> 'z input_globals_scheme \<Rightarrow> (nat \<times> u32 list) option \<times> 'z input_globals_scheme" where
  "read_vset K skb off sz extra s =
     (if sz > of_nat VRR_VSET_SIZE then (None, s)
      else let n = unat sz; (ok, s) = kmalloc K (4 * (n + extra)) s; (heap, s) = uninit K s in
        if \<not> ok then (None, s)
        else (Some (n, read_u32s skb off n heap @ map heap [n..<n + extra]), s))"

definition vrr_rcv_setup_req ::
  "kenv \<Rightarrow> sk_buff \<Rightarrow> vrr_header \<Rightarrow> 'z input_globals_scheme \<Rightarrow> (int \<times> 'z input_globals_scheme) option" where
  "vrr_rcv_setup_req K skb vh s = do {
     let (stack, s) = uninit K s;
     let off = sizeof_vrr_header;
     let src = src_id vh;
     let dst = dest_id vh;
     (nh, s) \<leftarrow> rt_get_next_exclude dst src s;
     if nh \<noteq> 0 then do { (_, s) \<leftarrow> vrr_forward_setup_req K skb vh nh s; Some (0, s) }
     else do {
       let proxy = read_u32 skb off (stack 0);
       let size = read_u32 skb (off + 4) (stack 1);
       let (arr, s) = read_vset K skb (off + 8) size 0 s;
       case arr of
         None \<Rightarrow> Some (-1, s)
       | Some (n, vset') \<Rightarrow> do {
           ((osize, ovset), s) \<leftarrow> vset_get_all K s;
           (added, s) \<leftarrow> vrr_add K src n vset' s;
           if added \<noteq> 0 then do {
             let (pid, s) = vrr_new_path_id K s;
             (_, s) \<leftarrow> vrr_local_rcv_setup K src pid proxy osize ovset s;
             Some (0, s) }
           else do {
             (_, s) \<leftarrow> vrr_local_rcv_setup_fail K src proxy osize ovset s;
             Some (0, s) } } }
   }"

definition vrr_rcv_setup_fail ::
  "kenv \<Rightarrow> sk_buff \<Rightarrow> vrr_header \<Rightarrow> 'z input_globals_scheme \<Rightarrow> (int \<times> 'z input_globals_scheme) option" where
  "vrr_rcv_setup_fail K skb vh s = do {
     let (stack, s) = uninit K s;
     let off = sizeof_vrr_header;
     let src = src_id vh;
     let dst = dest_id vh;
     let proxy = read_u32 skb off (stack 0);
     let size = read_u32 skb (off + 4) (stack 1);
     let (arr, s) = read_vset K skb (off + 8) size 1 s;
     case arr of
       None \<Rightarrow> Some (-1, s)
     | Some (n, vset') \<Rightarrow> do {
         (nh, s) \<leftarrow> setup_next_hop dst proxy s;
         if nh \<noteq> 0 then do { (_, s) \<leftarrow> send_setup_fail K src dst proxy n vset' nh s; Some (0, s) }
         else do {
           me \<leftarrow> get_vrr_id s;
           if dst = me then do {
             vset' \<leftarrow> arr_upd vset' (n + 1) src;
             (_, s) \<leftarrow> vrr_add K UINT_MAX n vset' s;
             Some (0, s) }
           else Some (0, s) } }
   }"

definition vrr_rcv_setup ::
  "kenv \<Rightarrow> sk_buff \<Rightarrow> vrr_header \<Rightarrow> 'z input_globals_scheme \<Rightarrow> (int \<times> 'z input_globals_scheme) option" where
  "vrr_rcv_setup K skb vh s = do {
     let (stack, s) = uninit K s;
     let off = sizeof_vrr_header;
     let src = src_id vh;
     let dst = dest_id vh;
     let pid = read_u32 skb off (stack 0);
     let proxy = read_u32 skb (off + 4) (stack 1);
     (sender, s) \<leftarrow>
       (if skb_dev_addr skb = skb_src_mac skb then do { me \<leftarrow> get_vrr_id s; Some (Some me, s) }
        else pset_lookup_mac (skb_src_mac skb) s);
     case sender of
       None \<Rightarrow> do { (_, s) \<leftarrow> tear_down_path K pid src 0 s; Some (0, s) }
     | Some sender \<Rightarrow> do {
         (st, s) \<leftarrow> pset_get_status dst s;
         (nh, s) \<leftarrow>
           (if st = PSET_UNKNOWN then do {
              me \<leftarrow> vrr_get_node s;
              if dst = vn_id me then Some (0, s) else rt_get_next proxy s }
            else Some (dst, s));
         (added, s) \<leftarrow> rt_add_route K src dst sender nh pid s;
         if added = 0 then do { (_, s) \<leftarrow> tear_down_path K pid src 0 s; Some (0, s) }
         else do {
           let size = read_u32 skb (off + 8) (stack 2);
           let (arr, s) = read_vset K skb (off + 12) size 0 s;
           case arr of
             None \<Rightarrow> Some (-1, s)
           | Some (n, vset') \<Rightarrow>
               if nh \<noteq> 0 then do { (_, s) \<leftarrow> send_setup K src dst pid proxy n vset' nh s; Some (0, s) }
               else do {
                 (added, s) \<leftarrow> vrr_add K src n vset' s;
                 if added \<noteq> 0 then do {
                   me \<leftarrow> vrr_get_node s;
                   Some (0, s\<lparr>vrr := Some (me\<lparr>vn_active := 1\<rparr>)\<rparr>) }
                 else Some (0, s) } } }
   }"

text \<open>
  \<open>route\<close> is read in both branches, so a teardown for a path that is not in the table has no defined
  result. The branch for a NULL array after \<open>vset_remove\<close> cannot be taken: NULL was returned on before.
\<close>

definition vrr_rcv_teardown ::
  "kenv \<Rightarrow> sk_buff \<Rightarrow> vrr_header \<Rightarrow> 'z input_globals_scheme \<Rightarrow> (int \<times> 'z input_globals_scheme) option" where
  "vrr_rcv_teardown K skb vh s = do {
     let (stack, s) = uninit K s;
     let off = sizeof_vrr_header;
     let src = src_id vh;
     let endp = read_u32 skb off (stack 0);
     let pid = read_u32 skb (off + 4) (stack 1);
     let size = read_u32 skb (off + 8) (stack 2);
     (route, s) \<leftarrow> rt_remove_route endp pid s;
     r \<leftarrow> route;
     let (endpt, nxt) = (if na r = src then (eb r, nb r) else (ea r, na r));
     let (arr, s) = read_vset K skb (off + 12) size 0 s;
     case arr of
       None \<Rightarrow> Some (-1, s)
     | Some (n, vset') \<Rightarrow>
         if nxt \<noteq> 0 then do { (_, s) \<leftarrow> send_teardown K pid endp vset' n nxt s; Some (0, s) }
         else do {
           (_, s) \<leftarrow> vset_remove endpt s;
           (_, s) \<leftarrow> vrr_add K 0 n vset' s;
           Some (0, s) }
   }"

section \<open>Dispatch\<close>

definition vrr_rcvfunc ::
  "kenv \<Rightarrow> 'z rx_layer \<Rightarrow> u8 \<Rightarrow> sk_buff \<Rightarrow> vrr_header \<Rightarrow> 'z input_globals_scheme \<Rightarrow> (int \<times> 'z input_globals_scheme) option" where
  "vrr_rcvfunc K R type skb vh s =
     (if type = VRR_DATA then vrr_rcv_data K R skb vh s
      else if type = VRR_HELLO then vrr_rcv_hello K skb vh s
      else if type = VRR_SETUP_REQ then vrr_rcv_setup_req K skb vh s
      else if type = VRR_SETUP then vrr_rcv_setup K skb vh s
      else if type = VRR_SETUP_FAIL then vrr_rcv_setup_fail K skb vh s
      else if type = VRR_TEARDOWN then vrr_rcv_teardown K skb vh s
      else None)"

definition vrr_rcv ::
  "kenv \<Rightarrow> 'z rx_layer \<Rightarrow> sk_buff \<Rightarrow> 'z input_globals_scheme \<Rightarrow> (int \<times> 'z input_globals_scheme) option" where
  "vrr_rcv K R skb s = do {
     vh \<leftarrow> vrr_hdr skb;
     if pkt_type vh \<ge> VRR_NPTYPES then Some (NET_RX_DROP, kfree_skb (skb_id skb) s)
     else do {
       s \<leftarrow> reset_active_timeout s;
       (_, s) \<leftarrow> pset_reset_fail_count (src_id vh) s;
       (err, s) \<leftarrow> vrr_rcvfunc K R (pkt_type vh) skb vh s;
       if err \<noteq> 0 then Some (NET_RX_DROP, kfree_skb (skb_id skb) s)
       else Some (NET_RX_SUCCESS, s) }
   }"

end
