(* ===== verification/Module_Life.thy ===== *)
theory Module_Life
  imports Receive
begin

text \<open>
  Loading, unloading and the periodic work of the module (\<open>vrr_mod.c\<close>), the initialisation of the data
  structures (\<open>vrr_data_init\<close>) and the files it exports through sysfs. The state adds what the module
  has registered with the kernel: each flag says that the registration is in place, \<open>timer_armed\<close> that
  the hello timer is pending, \<open>hello_work\<close> that the periodic work item is queued. The results of the
  registration calls are the argument \<open>boot\<close>.
\<close>

record mod_globals = input_globals +
  proto_registered :: bool
  kobj_refs :: int
  family_registered :: bool
  pack_registered :: bool
  timer_armed :: bool
  hello_work :: bool

record boot =
  b_proto_register :: int
  b_kobject :: bool
  b_sysfs_group :: int
  b_sock_register :: int

section \<open>Initialisation\<close>

definition vrr_data_init :: "'z core_globals_scheme \<Rightarrow> 'z core_globals_scheme option" where
  "vrr_data_init s = do {
     me \<leftarrow> get_vrr_id s;
     Some (s\<lparr>ME := me, rt_root := \<langle>\<rangle>, pset := [], vset := []\<rparr>)
   }"

definition mod_timer :: "'z mod_globals_scheme \<Rightarrow> 'z mod_globals_scheme" where
  "mod_timer s = s\<lparr>timer_armed := True\<rparr>"

definition vrr_init :: "kenv \<Rightarrow> boot \<Rightarrow> 'z mod_globals_scheme \<Rightarrow> (int \<times> 'z mod_globals_scheme) option" where
  "vrr_init K b s = do {
     (_, s) \<leftarrow> vrr_node_init K s;
     s \<leftarrow> vrr_data_init s;
     let (_, s) = pset_state_init K s;
     let s = vrr_init_rcv s;
     if b_proto_register b \<noteq> 0 then Some (b_proto_register b, s)
     else do {
       let s = s\<lparr>proto_registered := True\<rparr>;
       if \<not> b_kobject b then Some (- ENOMEM, s)
       else do {
         let s = s\<lparr>kobj_refs := kobj_refs s + 1\<rparr>;
         let s = (if b_sysfs_group b \<noteq> 0 then s\<lparr>kobj_refs := kobj_refs s - 1\<rparr> else s);
         if b_sock_register b \<noteq> 0 then Some (b_sock_register b, s)
         else Some (0, mod_timer (s\<lparr>family_registered := True, pack_registered := True\<rparr>)) } }
   }"

definition vrr_exit :: "'z mod_globals_scheme \<Rightarrow> 'z mod_globals_scheme" where
  "vrr_exit s = s\<lparr>family_registered := False, pack_registered := False, timer_armed := False,
     kobj_refs := kobj_refs s - 1, proto_registered := False\<rparr>"

section \<open>The periodic work\<close>

definition vrr_timer_tick :: "'z mod_globals_scheme \<Rightarrow> 'z mod_globals_scheme" where
  "vrr_timer_tick s = mod_timer (s\<lparr>hello_work := True\<rparr>)"

definition vrr_workqueue_handler :: "kenv \<Rightarrow> 'z core_globals_scheme \<Rightarrow> 'z core_globals_scheme option" where
  "vrr_workqueue_handler K s = do {
     s \<leftarrow> detect_failures s;
     s \<leftarrow> active_timeout s;
     (_, s) \<leftarrow> send_hpkt K s;
     Some s
   }"

section \<open>Sysfs\<close>

text \<open>\<open>%08x\<close> and \<open>%02x\<close>.\<close>

definition hex_digit :: "nat \<Rightarrow> char" where
  "hex_digit n = ''0123456789abcdef'' ! (n mod 16)"

fun hex :: "nat \<Rightarrow> nat \<Rightarrow> string" where
  "hex 0 x = []"
| "hex (Suc k) x = hex k (x div 16) @ [hex_digit x]"

abbreviation (input) PAGE_SIZE :: nat where "PAGE_SIZE \<equiv> 4096"
abbreviation (input) newline :: char where "newline \<equiv> CHR 0x0A"
abbreviation (input) colon :: char where "colon \<equiv> CHR 0x3A"
abbreviation (input) space :: char where "space \<equiv> CHR 0x20"

definition id_show :: "'z core_globals_scheme \<Rightarrow> (int \<times> string) option" where
  "id_show s = do { v \<leftarrow> get_vrr_id s; Some (9, hex 8 (unat v) @ [newline]) }"

fun mac_text :: "u8 list \<Rightarrow> string" where
  "mac_text [] = []"
| "mac_text [b] = hex 2 (unat b)"
| "mac_text (b # bs) = hex 2 (unat b) @ colon # mac_text bs"

definition pset_line :: "u32 \<Rightarrow> mac_addr \<Rightarrow> string" where
  "pset_line v m = hex 8 (unat v) @ space # mac_text m @ [newline]"

text \<open>
  The common body of the three physical set files, given what the four accessors return. Each
  \<open>snprintf\<close> writes one line of 27 characters where the one before ended. The text must fit the page.
\<close>

definition pset_show_real :: "u32 list \<Rightarrow> nat \<Rightarrow> mac_addr list \<Rightarrow> nat \<Rightarrow> (int \<times> string) option" where
  "pset_show_real ids id_bytes macs mac_bytes =
     (let pset_len = id_bytes div 4 in
      if mac_bytes div ETH_ALEN \<noteq> pset_len then Some (-1, [])
      else do {
        vs \<leftarrow> arr_prefix pset_len ids;
        ms \<leftarrow> arr_prefix pset_len macs;
        _ \<leftarrow> (if 27 * pset_len + 1 \<le> PAGE_SIZE then Some () else None);
        Some (27 * int pset_len + 1, concat (map2 pset_line vs ms)) })"

definition pset_active_show :: "'z core_globals_scheme \<Rightarrow> (int \<times> string) option" where
  "pset_active_show s = do {
     ids \<leftarrow> get_pset_active s; n \<leftarrow> get_pset_active_size s;
     macs \<leftarrow> get_pset_active_mac s; m \<leftarrow> get_pset_active_mac_size s;
     pset_show_real ids n macs m
   }"

definition pset_not_active_show :: "'z core_globals_scheme \<Rightarrow> (int \<times> string) option" where
  "pset_not_active_show s = do {
     ids \<leftarrow> get_pset_not_active s; n \<leftarrow> get_pset_not_active_size s;
     macs \<leftarrow> get_pset_not_active_mac s; m \<leftarrow> get_pset_not_active_mac_size s;
     pset_show_real ids n macs m
   }"

definition pset_pending_show :: "'z core_globals_scheme \<Rightarrow> (int \<times> string) option" where
  "pset_pending_show s = do {
     ids \<leftarrow> get_pset_pending s; n \<leftarrow> get_pset_pending_size s;
     macs \<leftarrow> get_pset_pending_mac s; m \<leftarrow> get_pset_pending_mac_size s;
     pset_show_real ids n macs m
   }"

definition vset_show :: "kenv \<Rightarrow> 'z core_globals_scheme \<Rightarrow> ((int \<times> string) \<times> 'z core_globals_scheme) option" where
  "vset_show K s = do {
     ((n, vset'), s) \<leftarrow> vset_get_all K s;
     vs \<leftarrow> arr_prefix n vset';
     _ \<leftarrow> (if 9 * n + 1 \<le> PAGE_SIZE then Some () else None);
     Some ((9 * int n + 1, concat (map (\<lambda>v. hex 8 (unat v) @ [newline]) vs)), s)
   }"

end
