(* ===== verification/Net_Frame.thy ===== *)
theory Net_Frame
  imports Module_Life
begin

text \<open>
  What the handlers of the routing messages keep: the lock discipline, the order and contents of the
  routing table and the consistency of the virtual set; and what they may change: the kernel's side,
  the routing table and the virtual set, nothing else. The proofs follow the handlers construct by
  construct through the rules of the locale \<open>state_frame\<close>.
\<close>

definition net :: "'z vset_globals_scheme \<Rightarrow> bool" where
  "net s \<longleftrightarrow> unlocked s \<and> rt_inv s \<and> vset_inv s"

definition routing_only :: "'z vset_globals_scheme \<Rightarrow> 'z vset_globals_scheme \<Rightarrow> bool" where
  "routing_only s t \<longleftrightarrow> t = s\<lparr>io := io t, rt_root := rt_root t, vset := vset t, vset_size := vset_size t\<rparr>"

lemma routing_onlyE:
  assumes "routing_only s t"
  obtains i r v n where "t = s\<lparr>io := i, rt_root := r, vset := v, vset_size := n\<rparr>"
  using assms unfolding routing_only_def by blast

lemma routing_onlyI [simp]: "routing_only s (s\<lparr>io := i, rt_root := r, vset := v, vset_size := n\<rparr>)"
  "routing_only s (s\<lparr>io := i, rt_root := r\<rparr>)" "routing_only s (s\<lparr>rt_root := r\<rparr>)" "routing_only s (s\<lparr>vset := v\<rparr>)"
  by (simp_all add: routing_only_def)

lemma routing_only_vset: "vset_only s t \<Longrightarrow> routing_only s t"
  by (auto simp: routing_only_def elim!: vset_onlyE)

lemma routing_only_io: "io_only s t \<Longrightarrow> routing_only s t"
  by (simp add: routing_only_vset vset_only_io)

lemma routing_only_refl: "routing_only s s"
  by (simp add: routing_only_io)

lemma routing_only_trans: "routing_only s t \<Longrightarrow> routing_only t u \<Longrightarrow> routing_only s u"
  by (elim routing_onlyE) (simp add: routing_only_def)

interpretation net: state_frame net routing_only
  by unfold_locales (auto intro: routing_only_refl routing_only_trans)

lemma rt_inv_io_only: "io_only s t \<Longrightarrow> rt_inv t = rt_inv s"
  by (auto simp: rt_inv_def elim!: io_onlyE)

lemma net_io_only: "io_only s t \<Longrightarrow> net t = net s"
  by (simp add: net_def unlocked_io_only rt_inv_io_only vset_inv_io_only)

lemma net_io: "io_only s t \<Longrightarrow> net s \<Longrightarrow> net t"
  by (simp add: net_io_only)

lemma io_only_same: "t = s \<Longrightarrow> io_only s t"
  by simp

lemma net_vset_only: "vset_only s t \<Longrightarrow> vset_inv t \<Longrightarrow> net s \<Longrightarrow> net t"
  by (auto simp: net_def unlocked_def rt_inv_def elim!: vset_onlyE)

lemma net_vset: "net (s\<lparr>vset := v\<rparr>) \<longleftrightarrow> unlocked s \<and> rt_inv s \<and> vset_inv (s\<lparr>vset := v\<rparr>)"
  by (simp add: net_def unlocked_def rt_inv_def)

lemma net_root: "net (s\<lparr>io := i, rt_root := r\<rparr>) \<longleftrightarrow> unlocked s \<and> rt_good r \<and> vset_inv s"
  "net (s\<lparr>rt_root := r\<rparr>) \<longleftrightarrow> unlocked s \<and> rt_good r \<and> vset_inv s"
  by (simp_all add: net_def unlocked_def rt_inv_good vset_inv_def)

section \<open>Operations that only send\<close>

lemma keeps_io: "(\<And>s r t. f s = Some (r, t) \<Longrightarrow> io_only s t) \<Longrightarrow> keeps net routing_only f"
  unfolding keeps_def by (blast intro: routing_only_io net_io)

lemma keeps1_io: "(\<And>s t. f s = Some t \<Longrightarrow> io_only s t) \<Longrightarrow> keeps1 net routing_only f"
  unfolding keeps1_def by (blast intro: routing_only_io net_io)

lemma keeps_pair_io: "(\<And>s. io_only s (snd (f s))) \<Longrightarrow> net s \<Longrightarrow> net (snd (f s)) \<and> routing_only s (snd (f s))"
  by (blast intro: routing_only_io net_io)

lemma same_state:
  "rt_get_next d s = Some (x, t) \<Longrightarrow> t = s" "rt_get_next_exclude d e s = Some (x, t) \<Longrightarrow> t = s"
  "pset_get_status d p = Some (y, q) \<Longrightarrow> q = p" "pset_lookup_mac m p = Some (z, q) \<Longrightarrow> q = p"
  "pset_get_active d p = Some (y, q) \<Longrightarrow> q = p"
  by (auto simp: rt_get_next_def rt_get_next_exclude_def pset_get_status_def pset_lookup_mac_def pset_get_active_def
      spin_lock_def spin_unlock_def held_idem split: if_splits option.splits)

lemma vrr_forward_io: "vrr_forward K skb vh s = Some (r, t) \<Longrightarrow> io_only s t"
  unfolding vrr_forward_def
  by (auto simp: run_simps split: if_splits option.splits dest!: same_state(1) pset_get_mac_state io_only_vrr_output)

lemma vrr_forward_setup_req_io: "vrr_forward_setup_req K skb vh nh s = Some (r, t) \<Longrightarrow> io_only s t"
  unfolding vrr_forward_setup_req_def
  by (auto simp: run_simps split: option.splits dest!: pset_get_mac_state io_only_vrr_output)

lemma read_vset_io: "io_only s (snd (read_vset K skb off sz x s))"
  by (simp add: read_vset_def kmalloc_def uninit_def Let_def io_only_tick2)

lemma setup_next_hop_same: "setup_next_hop d p s = Some (r, t) \<Longrightarrow> t = s"
  unfolding setup_next_hop_def by (auto simp: run_simps split: if_splits dest!: same_state)

lemma send_keeps:
  "keeps net routing_only (send_setup K a b c d n v x)" "keeps net routing_only (send_setup_fail K a b c n v x)"
  "keeps net routing_only (send_teardown K a b v n x)" "keeps net routing_only (send_setup_req K a b c)"
  "keeps net routing_only (vrr_forward K skb vh)" "keeps net routing_only (vrr_forward_setup_req K skb vh x)"
  "keeps net routing_only (vset_get_all K)" "keeps net routing_only (setup_next_hop x y)"
  "keeps net routing_only (rt_get_next x)" "keeps net routing_only (rt_get_next_exclude x y)"
  "keeps net routing_only (pset_get_status x)" "keeps net routing_only (pset_lookup_mac m)"
  "keeps1 net routing_only (tear_down_hop K a b c d)"
  by (rule keeps_io keeps1_io, erule send_setup_io send_setup_fail_io send_teardown_io send_setup_req_io
      vrr_forward_io vrr_forward_setup_req_io vset_get_all_io setup_next_hop_same [THEN io_only_same]
      same_state [THEN io_only_same] tear_down_hop_io)+

section \<open>Operations that change the table or the virtual set\<close>

lemma rt_good_del: "rt_good t \<Longrightarrow> rt_good (rt_del t e p)"
  using set_del_first_subset
  by (fastforce simp: rt_good_def ordered_del rt_entries_ok_def dest!: set_tree_del)

lemma rt_add_route_keeps:
  assumes "rb_keeps_order K"
  shows "keeps net routing_only (rt_add_route K a b c d p)"
  unfolding keeps_def
proof (intro allI impI)
  fix s r t assume n: "net (s :: 'a vset_globals_scheme)" and run: "rt_add_route K a b c d p s = Some (r, t)"
  have st: "rt_inv s" "\<not> held s vrr_rt_lock" using n by (simp_all add: net_def)
  obtain u i where "t = s\<lparr>io := i, rt_root := u\<rparr>" "rt_good u"
    by (rule rt_add_route_run [OF assms st, of a b c d p]) (use run in auto)
  then show "net t \<and> routing_only s t" using n net_root(1) [of u i s] unfolding net_def [of s] by simp
qed

lemma rt_remove_route_keeps: "keeps net routing_only (rt_remove_route e p)"
  unfolding keeps_def
proof (intro allI impI)
  fix s r t assume n: "net (s :: 'a vset_globals_scheme)" and run: "rt_remove_route e p s = Some (r, t)"
  then have "t = s\<lparr>rt_root := rt_del (rt_root s) e p\<rparr>" by (simp add: rt_remove_route_run net_def)
  then show "net t \<and> routing_only s t" using n unfolding net_def [of s] by (simp add: net_root rt_good_del rt_inv_good)
qed

lemma vset_remove_keeps: "keeps net routing_only (vset_remove x)"
  unfolding keeps_def by (auto simp: net_def vset_remove_run net_vset [unfolded net_def] vset_inv_del_first unlocked_def rt_inv_def)

lemma vrr_add_keeps:
  assumes "sort_by_address K"
  shows "keeps net routing_only (vrr_add K src n vs)"
  unfolding keeps_def
proof (intro allI impI)
  fix s r t assume n: "net (s :: 'a core_globals_scheme)" and run: "vrr_add K src n vs s = Some (r, t)"
  have "vset_inv t \<and> vset_only s t" using vrr_add_effect [OF run assms] n by (simp add: net_def)
  then show "net t \<and> routing_only s t" using net_vset_only [OF _ _ n] routing_only_vset by blast
qed

lemmas keeps_rules = net.bind net.bind1 net.let_bind net.return keeps_if keeps_option keeps_prod keeps_prod_fun keeps_let keeps_read
  net.seq net.seq1 keeps1_if keeps1_option keeps1_prod keeps1_let keeps1_read

lemma tear_down_path_keeps: "keeps net routing_only (tear_down_path K p e x)"
  unfolding tear_down_path_def
  by (rule rt_remove_route_keeps send_keeps keeps_rules)+

lemma uninit_io: "io_only s (snd (uninit K s))" "io_only s (snd (kmalloc K n s))" "io_only c (snd (vrr_new_path_id K c))"
  by (simp_all add: uninit_def kmalloc_def vrr_new_path_id_def get_random_bytes_def)

lemmas op_keeps = rt_remove_route_keeps vset_remove_keeps tear_down_path_keeps send_keeps

section \<open>The handlers\<close>

lemma local_setup_keeps:
  assumes "rb_keeps_order K"
  shows "keeps net routing_only (vrr_local_rcv_setup K d p x n v)"
  unfolding vrr_local_rcv_setup_def by (rule rt_add_route_keeps [OF assms] op_keeps keeps_rules)+

lemma local_setup_fail_keeps:
  assumes "sort_by_address K"
  shows "keeps net routing_only (vrr_local_rcv_setup_fail K d x n v)"
  unfolding vrr_local_rcv_setup_fail_def
  by (rule vrr_add_keeps [OF assms] op_keeps keeps_rules keeps_pair_io uninit_io | assumption)+

lemma rcv_setup_req_keeps:
  assumes "rb_keeps_order K" "sort_by_address K"
  shows "keeps net routing_only (vrr_rcv_setup_req K skb vh)"
  unfolding vrr_rcv_setup_req_def
  by (rule vrr_add_keeps [OF assms(2)] local_setup_keeps [OF assms(1)] local_setup_fail_keeps [OF assms(2)]
      op_keeps keeps_rules keeps_pair_io uninit_io read_vset_io | assumption)+

lemma rcv_setup_fail_keeps:
  assumes "sort_by_address K"
  shows "keeps net routing_only (vrr_rcv_setup_fail K skb vh)"
  unfolding vrr_rcv_setup_fail_def
  by (rule vrr_add_keeps [OF assms] op_keeps keeps_rules keeps_pair_io uninit_io read_vset_io | assumption)+

lemma rcv_teardown_keeps:
  assumes "sort_by_address K"
  shows "keeps net routing_only (vrr_rcv_teardown K skb vh)"
  unfolding vrr_rcv_teardown_def
  by (rule vrr_add_keeps [OF assms] op_keeps keeps_rules keeps_pair_io uninit_io read_vset_io | assumption)+

end
