(* ===== verification/System_Inv.thy ===== *)
theory System_Inv
  imports Net_Frame
begin

text \<open>
  The invariant of a running node and that every entry point of the module keeps it: a received
  packet of any type and content, the periodic work, the deferred neighbour updates and the socket
  calls.
\<close>

section \<open>The invariant\<close>

text \<open>
  A pending update carries a six-byte address and a column of the transition table (\<open>updates_ok\<close>), and
  while there is one the work item that applies it is queued (\<open>work_ok\<close>). Everything but a hello leaves
  the queue alone (\<open>same_queue\<close>).
\<close>

definition updates_ok :: "'z input_globals_scheme \<Rightarrow> bool" where
  "updates_ok s \<longleftrightarrow> (\<forall>u \<in> set (pset_updates s). length (pu_mac u) = ETH_ALEN \<and> pu_trans u < 3)"

definition work_ok :: "'z input_globals_scheme \<Rightarrow> bool" where
  "work_ok s \<longleftrightarrow> (pset_updates s \<noteq> [] \<longrightarrow> update_work s)"

definition sys_core :: "'z input_globals_scheme \<Rightarrow> bool" where
  "sys_core s \<longleftrightarrow> net s \<and> pset_inv s \<and> core_inv s \<and> socks_inv s \<and> updates_ok s"

definition sys_inv :: "'z input_globals_scheme \<Rightarrow> bool" where
  "sys_inv s \<longleftrightarrow> sys_core s \<and> work_ok s"

definition same_queue :: "'z input_globals_scheme \<Rightarrow> 'z input_globals_scheme \<Rightarrow> bool" where
  "same_queue s t \<longleftrightarrow> pset_updates t = pset_updates s \<and> update_work t = update_work s"

interpretation sys: state_frame sys_core same_queue
  by unfold_locales (auto simp: same_queue_def)

lemma sys_inv_same_queue: "sys_inv s \<Longrightarrow> sys_core t \<and> same_queue s t \<Longrightarrow> sys_inv t"
  by (simp add: sys_inv_def same_queue_def work_ok_def)

lemma routing_same_queue: "routing_only s t \<Longrightarrow> same_queue s t"
  by (auto simp: same_queue_def elim!: routing_onlyE)

lemma sys_core_routing: "routing_only s t \<Longrightarrow> net t \<Longrightarrow> sys_core s \<Longrightarrow> sys_core t"
  by (auto simp: sys_core_def pset_inv_def core_inv_def pstate_ok_def node_ok_def socks_inv_def updates_ok_def
      elim!: routing_onlyE)

lemma sys_core_io: "io_only s t \<Longrightarrow> sys_core s \<Longrightarrow> sys_core t \<and> same_queue s t"
  using sys_core_routing [OF routing_only_io] net_io routing_same_queue [OF routing_only_io] by (auto simp: sys_core_def)

lemma sys_keeps_net: "keeps net routing_only f \<Longrightarrow> keeps sys_core same_queue f"
  unfolding keeps_def using sys_core_routing routing_same_queue by (metis sys_core_def)

lemma sys_keeps_io: "(\<And>s r t. f s = Some (r, t) \<Longrightarrow> io_only s t) \<Longrightarrow> keeps sys_core same_queue f"
  unfolding keeps_def by (blast dest: sys_core_io)

lemma sys_pair_io: "(\<And>s. io_only s (snd (f s))) \<Longrightarrow> sys_core s \<Longrightarrow> sys_core (snd (f s)) \<and> same_queue s (snd (f s))"
  using sys_core_io by blast

lemmas sys_rules = sys.bind sys.bind1 sys.let_bind sys.return keeps_if keeps_option keeps_prod keeps_prod_fun
  keeps_let keeps_read sys.seq sys.seq1 keeps1_if keeps1_option keeps1_prod keeps1_let keeps1_read

section \<open>The node's own record\<close>

lemma sys_core_vrr:
  assumes "sys_core s" "core_inv (s\<lparr>vrr := v\<rparr>)"
  shows "sys_core (s\<lparr>vrr := v\<rparr>)"
  using assms by (simp add: sys_core_def net_def unlocked_def rt_inv_def vset_inv_def pset_inv_def socks_inv_def updates_ok_def)

lemma same_queue_upd [simp]:
  "same_queue s (s\<lparr>vrr := v\<rparr>)" "same_queue s (s\<lparr>pset := p\<rparr>)" "same_queue s (s\<lparr>pset := p, pstate := q\<rparr>)"
  by (simp_all add: same_queue_def)

lemma activate_keeps:
  "keeps sys_core same_queue (\<lambda>s. vrr_get_node s \<bind> (\<lambda>me. Some (0 :: int, s\<lparr>vrr := Some (me\<lparr>vn_active := 1\<rparr>)\<rparr>)))"
  unfolding keeps_def
proof (intro allI impI)
  fix s :: "'a input_globals_scheme" and r t assume inv: "sys_core s"
    and run: "vrr_get_node s \<bind> (\<lambda>me. Some (0 :: int, s\<lparr>vrr := Some (me\<lparr>vn_active := 1\<rparr>)\<rparr>)) = Some (r, t)"
  obtain n where n: "vrr s = Some n" and t: "t = s\<lparr>vrr := Some (n\<lparr>vn_active := 1\<rparr>)\<rparr>"
    using run by (auto simp: vrr_get_node_def bind_eq_Some_conv)
  have "core_inv t" using inv n by (auto simp: t core_inv_vrr sys_core_def core_inv_def node_ok_def pstate_ok_def)
  then show "sys_core t \<and> same_queue s t" using sys_core_vrr [OF inv] t by simp
qed

lemma vrr_onlyE:
  assumes "vrr_only s t"
  obtains v where "t = s\<lparr>vrr := v\<rparr>"
  using assms unfolding vrr_only_def by blast

lemma reset_active_timeout_keeps: "keeps1 sys_core same_queue reset_active_timeout"
  unfolding keeps1_def
proof (intro allI impI)
  fix s t assume inv: "sys_core (s :: 'a input_globals_scheme)" and run: "reset_active_timeout s = Some t"
  have "core_inv s" using inv by (simp add: sys_core_def)
  then have "core_inv t \<and> vrr_only s t"
    by (rule reset_active_timeout_inv) (use run in simp)
  then show "sys_core t \<and> same_queue s t" using sys_core_vrr [OF inv] by (auto elim: vrr_onlyE)
qed

lemma active_timeout_keeps: "keeps1 sys_core same_queue active_timeout"
  unfolding keeps1_def
proof (intro allI impI)
  fix s t assume inv: "sys_core (s :: 'a input_globals_scheme)" and run: "active_timeout s = Some t"
  have "core_inv s" using inv by (simp add: sys_core_def)
  then have "core_inv t \<and> vrr_only s t"
    by (rule active_timeout_inv) (use run in simp)
  then show "sys_core t \<and> same_queue s t" using sys_core_vrr [OF inv] by (auto elim: vrr_onlyE)
qed

section \<open>The physical set\<close>

lemma sys_core_pset:
  assumes "sys_core s" "pset_inv (s\<lparr>pset := p\<rparr>)" "core_inv (s\<lparr>pset := p\<rparr>)"
  shows "sys_core (s\<lparr>pset := p\<rparr>)"
  using assms by (simp add: sys_core_def net_def unlocked_def rt_inv_def vset_inv_def socks_inv_def updates_ok_def)

lemma core_inv_pset_cong:
  assumes "core_inv s" "map link_data p = map link_data (pset s)"
  shows "core_inv (s\<lparr>pset := p\<rparr>)"
  using assms mirrors_cong(1) [OF assms(2)] by (simp add: core_inv_def pstate_ok_def node_ok_def)

lemma reset_fail_count_keeps: "keeps sys_core same_queue (pset_reset_fail_count x)"
  unfolding keeps_def
proof (intro allI impI)
  fix s r t assume inv: "sys_core (s :: 'a input_globals_scheme)" and run: "pset_reset_fail_count x s = Some (r, t)"
  define p where "p = upd_first (\<lambda>e. pl_node e = x) (\<lambda>e. e\<lparr>fail_count := 0\<rparr>) (pset s)"
  have u: "\<not> held s vrr_pset_lock" and i: "pset_inv s" "core_inv s" using inv by (simp_all add: sys_core_def net_def)
  have t: "t = s\<lparr>pset := p\<rparr>" using run u by (simp add: pset_reset_fail_count_run p_def)
  have "map link_data p = map link_data (pset s)"
    unfolding p_def by (rule map_upd_first) (simp add: link_data_def link_class_defs)
  then show "sys_core t \<and> same_queue s t"
    using sys_core_pset [OF inv] pset_inv_reset [OF i(1) u run] core_inv_pset_cong [OF i(2)] t by simp
qed

lemma detect_failures_keeps: "keeps1 sys_core same_queue detect_failures"
  unfolding keeps1_def
proof (intro allI impI)
  fix s t assume inv: "sys_core (s :: 'a input_globals_scheme)" and run: "detect_failures s = Some t"
  have i: "pset_inv s" "core_inv s" using inv by (simp_all add: sys_core_def)
  obtain ps where "pset_inv t" "core_inv t" "t = s\<lparr>pset := survivors (pset s), pstate := Some ps\<rparr>"
    by (rule detect_failures_inv [OF i]) (use run in auto)
  then show "sys_core t \<and> same_queue s t"
    using inv by (simp add: sys_core_def net_def unlocked_def rt_inv_def vset_inv_def socks_inv_def updates_ok_def)
qed

section \<open>The link state machine\<close>

text \<open>Every state and every column has a next state, and it is never unknown.\<close>

lemma next_link_state_total:
  assumes "cur \<in> {PSET_LINKED, PSET_PENDING, PSET_FAILED, PSET_UNKNOWN}" "tr < 3"
  obtains nxt where "next_link_state cur tr = Some nxt" "nxt \<in> {PSET_LINKED, PSET_PENDING, PSET_FAILED}"
proof -
  have "tr = 0 \<or> tr = 1 \<or> tr = 2" using assms(2) by auto
  then have "\<exists>nxt. next_link_state cur tr = Some nxt \<and> nxt \<in> {PSET_LINKED, PSET_PENDING, PSET_FAILED}"
    using assms(1) by (auto simp: next_link_state_def hello_trans_def idx_def)
  then show ?thesis using that by blast
qed

lemma link_status_cases:
  "pset_inv s \<Longrightarrow> link_status s x \<in> {PSET_LINKED, PSET_PENDING, PSET_FAILED, PSET_UNKNOWN}"
  by (auto simp: link_status_def pset_inv_def entry_ok_def split: option.split dest!: neighbour_in_pset)

text \<open>Between a change of the set and \<open>pset_state_update\<close>, the copy is only known to have its arrays.\<close>

definition stale :: "'z input_globals_scheme \<Rightarrow> bool" where
  "stale s \<longleftrightarrow> net s \<and> pset_inv s \<and> node_ok s \<and> (\<exists>ps. pstate s = Some ps \<and> arrays_ok ps) \<and> socks_inv s \<and> updates_ok s"

lemma pset_state_update_refreshes:
  assumes "stale s" "pset_state_update s = Some t"
  shows "sys_core t \<and> same_queue s t"
proof -
  obtain ps where ps: "pstate s = Some ps" "arrays_ok ps" using assms(1) by (auto simp: stale_def)
  have t: "fits (pset s)" "t = s\<lparr>pstate := Some (copy_of ps (pset s))\<rparr>"
    using assms(2) pset_state_update_run [OF ps] by (auto split: if_splits)
  have "core_inv t" using assms(1) copy_of_ok [OF ps(2) t(1)] by (simp add: t core_inv_def pstate_ok_def node_ok_def stale_def)
  then show ?thesis
    using assms(1) by (simp add: t stale_def sys_core_def net_def unlocked_def rt_inv_def vset_inv_def pset_inv_def
        socks_inv_def updates_ok_def same_queue_def)
qed

lemma stale_pset:
  assumes "sys_core s" "pset_inv t" "t = s\<lparr>io := i, pset := p, pset_size := n\<rparr>"
  shows "stale t \<and> same_queue s t"
  using assms by (auto simp: stale_def sys_core_def core_inv_def pstate_ok_def node_ok_def net_def unlocked_def rt_inv_def
      vset_inv_def socks_inv_def updates_ok_def same_queue_def)

lemma pset_add_stale:
  assumes "sys_core s" "st \<in> {PSET_LINKED, PSET_PENDING, PSET_FAILED}" "length mac = ETH_ALEN"
    "pset_add K x mac st act s = Some (r, t)"
  shows "stale t \<and> same_queue s t"
proof -
  have i: "pset_inv s" "\<not> held s vrr_pset_lock" using assms(1) by (simp_all add: sys_core_def net_def)
  have "\<exists>i p n. t = s\<lparr>io := i, pset := p, pset_size := n\<rparr>"
  proof (cases "neighbour s x")
    case None
    then show ?thesis using assms(4) i(2) by (auto simp: pset_add_new tick_def split: if_splits)
  next
    case (Some e)
    then have "t = s\<lparr>io := io s, pset := pset s, pset_size := pset_size s\<rparr>" using assms(4) i(2) by (simp add: pset_add_known)
    then show ?thesis by blast
  qed
  then show ?thesis using stale_pset [OF assms(1)] pset_inv_add [OF i(1) assms(2,3) i(2) assms(4)] by blast
qed

lemma pset_update_status_stale:
  assumes "sys_core s" "st \<in> {PSET_LINKED, PSET_PENDING, PSET_FAILED}" "pset_update_status x st act s = Some (r, t)"
  shows "stale t \<and> same_queue s t"
proof -
  have i: "pset_inv s" "\<not> held s vrr_pset_lock" using assms(1) by (simp_all add: sys_core_def net_def)
  have "t = s\<lparr>io := io s, pset := pset t, pset_size := pset_size s\<rparr>" using assms(3) i(2) by (auto simp: pset_update_status_run)
  then show ?thesis using stale_pset [OF assms(1)] pset_inv_update_status [OF i(1) assms(2) i(2) assms(3)] by blast
qed

definition update_ok :: "pset_update \<Rightarrow> bool" where
  "update_ok u \<longleftrightarrow> length (pu_mac u) = ETH_ALEN \<and> pu_trans u < 3"

lemma record_link_keeps:
  assumes "update_ok u" "nxt \<in> {PSET_LINKED, PSET_PENDING, PSET_FAILED}"
  shows "keeps1 sys_core same_queue (record_link K u cur nxt act)"
  unfolding keeps1_def
proof (intro allI impI)
  fix s t assume inv: "sys_core (s :: 'a input_globals_scheme)" and run: "record_link K u cur nxt act s = Some t"
  have m: "length (pu_mac u) = ETH_ALEN" using assms(1) by (simp add: update_ok_def)
  consider (add) r s0 where "pset_add K (pu_node u) (pu_mac u) nxt (pu_active u) s = Some (r, s0)" "pset_state_update s0 = Some t"
    | (upd) r s0 where "pset_update_status (pu_node u) nxt (pu_active u) s = Some (r, s0)" "pset_state_update s0 = Some t"
    | (same) "t = s"
    using run by (auto simp: record_link_def run_simps split: if_splits)
  then show "sys_core t \<and> same_queue s t"
  proof cases
    case add
    then show ?thesis
      using pset_add_stale [OF inv assms(2) m] pset_state_update_refreshes sys.frame_trans by blast
  next
    case upd
    then show ?thesis
      using pset_update_status_stale [OF inv assms(2)] pset_state_update_refreshes sys.frame_trans by blast
  qed (use inv sys.frame_refl in auto)
qed

lemma ask_proxy_io: "ask_proxy K u nxt s = Some t \<Longrightarrow> io_only s t"
  by (auto simp: ask_proxy_def run_simps split: if_splits dest!: send_setup_req_io)

lemma apply_update_run:
  assumes "sys_core s" "update_ok u"
  obtains nxt where "next_link_state (link_status s (pu_node u)) (pu_trans u) = Some nxt"
    "nxt \<in> {PSET_LINKED, PSET_PENDING, PSET_FAILED}"
    "apply_update K u s = do {
       s \<leftarrow> record_link K u (link_status s (pu_node u)) nxt
             (case neighbour s (pu_node u) of None \<Rightarrow> 0 | Some e \<Rightarrow> pl_active e) s;
       ask_proxy K u nxt s }"
proof -
  have st: "pset_inv s" "\<not> held s vrr_pset_lock" using assms(1) by (simp_all add: sys_core_def net_def)
  obtain nxt where nxt: "next_link_state (link_status s (pu_node u)) (pu_trans u) = Some nxt"
      "nxt \<in> {PSET_LINKED, PSET_PENDING, PSET_FAILED}"
    using next_link_state_total [OF link_status_cases [OF st(1)]] assms(2) unfolding update_ok_def by blast
  show ?thesis
    by (rule that [OF nxt]) (simp add: apply_update_def pset_get_status_run pset_get_active_run st(2) nxt(1))
qed

lemma apply_update_keeps:
  assumes "update_ok u"
  shows "keeps1 sys_core same_queue (apply_update K u)"
  unfolding keeps1_def
proof (intro allI impI)
  fix s t assume inv: "sys_core (s :: 'a input_globals_scheme)" and run: "apply_update K u s = Some t"
  obtain nxt where nxt: "nxt \<in> {PSET_LINKED, PSET_PENDING, PSET_FAILED}"
    and eq: "apply_update K u s = do {
       s \<leftarrow> record_link K u (link_status s (pu_node u)) nxt
             (case neighbour s (pu_node u) of None \<Rightarrow> 0 | Some e \<Rightarrow> pl_active e) s;
       ask_proxy K u nxt s }"
    by (rule apply_update_run [OF inv assms])
  obtain act s1 where 1: "record_link K u (link_status s (pu_node u)) nxt act s = Some s1" and 2: "ask_proxy K u nxt s1 = Some t"
    using run unfolding eq bind_eq_Some_conv by blast
  have "sys_core s1 \<and> same_queue s s1" by (rule keeps1D [OF record_link_keeps [OF assms nxt] inv 1])
  then show "sys_core t \<and> same_queue s t"
    using sys_core_io [OF ask_proxy_io [OF 2]] sys.frame_trans by blast
qed

lemma apply_updates_keeps:
  "\<forall>u \<in> set us. update_ok u \<Longrightarrow>
     keeps1 sys_core same_queue (apply_updates K us :: 'z input_globals_scheme \<Rightarrow> _)"
proof (induction us)
  case Nil
  then show ?case by (simp add: sys.return(2) keeps1_def sys.frame_refl)
next
  case (Cons u us)
  have "keeps1 sys_core same_queue (\<lambda>s :: 'z input_globals_scheme. apply_update K u s \<bind> apply_updates K us)"
    by (rule sys.seq1 [OF apply_update_keeps]) (use Cons in simp_all)
  then show ?case by simp
qed

text \<open>The work item: it runs with its queued flag already cleared and leaves no update behind.\<close>

lemma update_handler_inv:
  assumes "sys_inv s" "pset_update_handler K (s\<lparr>update_work := False\<rparr>) = Some t"
  shows "sys_inv t \<and> pset_updates t = []"
proof -
  define s0 where "s0 = s\<lparr>update_work := False\<rparr>"
  have core: "sys_core s0"
    using assms(1) by (simp add: s0_def sys_inv_def sys_core_def net_def unlocked_def rt_inv_def vset_inv_def pset_inv_def
        core_inv_def pstate_ok_def node_ok_def socks_inv_def updates_ok_def)
  have us: "\<forall>u \<in> set (pset_updates s0). update_ok u" using core by (simp add: sys_core_def updates_ok_def update_ok_def)
  obtain s1 where 1: "apply_updates K (pset_updates s0) s0 = Some s1" and t: "t = s1\<lparr>pset_updates := []\<rparr>"
    using assms(2) by (auto simp: pset_update_handler_def s0_def [symmetric] run_simps)
  have "sys_core s1" using keeps1D [OF apply_updates_keeps [OF us] core 1] by simp
  then show ?thesis
    by (simp add: t sys_inv_def work_ok_def sys_core_def net_def unlocked_def rt_inv_def vset_inv_def pset_inv_def
        core_inv_def pstate_ok_def node_ok_def socks_inv_def updates_ok_def)
qed

section \<open>Delivery to sockets\<close>

text \<open>
  What is relied on of \<open>sk_receive_skb\<close>: it works on the socket (its queue, its count) and the kernel's
  side only, and leaves the table of sockets as it was.
\<close>

definition rx_lawful :: "'z rx_layer \<Rightarrow> bool" where
  "rx_lawful R \<longleftrightarrow> (\<forall>i skb s. sock_only s (snd (R i skb s)) \<and> (socks_inv s \<longrightarrow> socks_inv (snd (R i skb s))))"

lemma sys_core_sock:
  assumes "sock_only s t" "socks_inv t" "sys_core s"
  shows "sys_core t \<and> same_queue s t"
  using assms by (auto simp: sys_core_def net_def unlocked_def rt_inv_def vset_inv_def pset_inv_def core_inv_def pstate_ok_def
      node_ok_def updates_ok_def same_queue_def elim!: sock_onlyE)

lemma find_sock_keeps: "keeps sys_core same_queue (vrr_find_sock a)"
  unfolding keeps_def
proof (intro allI impI)
  fix s r t assume inv: "sys_core (s :: 'a input_globals_scheme)" and run: "vrr_find_sock a s = Some (r, t)"
  have st: "\<not> held s vrr_socks_lock" "socks_inv s" using inv by (simp_all add: sys_core_def net_def)
  have "sock_only s t \<and> socks_inv t"
    using run vrr_find_sock_run [OF st, of a] st(2) by (auto simp: socks_inv_counts split: option.splits)
  then show "sys_core t \<and> same_queue s t" using sys_core_sock inv by blast
qed

lemma deliver_keeps:
  assumes "rx_lawful R"
  shows "keeps sys_core same_queue (\<lambda>s. let (ret, s) = R i skb s in Some (ret, sock_put i s))"
  unfolding keeps_def
proof (intro allI impI)
  fix s r t assume inv: "sys_core (s :: 'a input_globals_scheme)"
    and run: "(let (ret, s) = R i skb s in Some (ret, sock_put i s)) = Some (r, t)"
  have t: "t = sock_put i (snd (R i skb s))" using run by (auto simp: split_beta)
  have "sock_only s t" unfolding t by (rule sock_only_trans [of _ "snd (R i skb s)"]) (use assms in \<open>simp_all add: rx_lawful_def\<close>)
  moreover have "socks_inv t" unfolding t using assms inv by (simp add: rx_lawful_def socks_inv_counts sys_core_def)
  ultimately show "sys_core t \<and> same_queue s t" using sys_core_sock inv by blast
qed

lemma rcv_data_keeps:
  assumes "rx_lawful R"
  shows "keeps sys_core same_queue (vrr_rcv_data K R skb vh)"
  unfolding vrr_rcv_data_def
  by (rule find_sock_keeps deliver_keeps [OF assms] sys_keeps_net [OF send_keeps(5)] sys_rules)+

section \<open>Setup\<close>

lemma rcv_setup_keeps:
  assumes "rb_keeps_order K" "sort_by_address K"
  shows "keeps sys_core same_queue (vrr_rcv_setup K skb vh)"
  unfolding vrr_rcv_setup_def
  by (rule activate_keeps rt_add_route_keeps [OF assms(1), THEN sys_keeps_net] vrr_add_keeps [OF assms(2), THEN sys_keeps_net]
      op_keeps(1-15) [THEN sys_keeps_net] sys_rules sys_pair_io uninit_io read_vset_io | assumption)+

section \<open>Hello\<close>

lemma hello_scan_less: "hello_scan me st skb = Some (a, tr) \<Longrightarrow> tr < 3"
  unfolding hello_scan_def Let_def scan_def by (simp split: if_splits)

text \<open>A hello is refused and changes nothing of the module, or appends exactly one update.\<close>

lemma rcv_hello_effect:
  assumes "vrr_rcv_hello K skb vh s = Some (r, t)"
  obtains "io_only s t" "r = -1"
  | i u where "t = s\<lparr>io := i, pset_updates := pset_updates s @ [u], update_work := True\<rparr>" "r = 0"
      "pu_node u = src_id vh" "pu_mac u = skb_src_mac skb" "pu_trans u < 3"
proof -
  obtain n where n: "vrr s = Some n" using assms by (auto simp: vrr_rcv_hello_def vrr_get_node_def run_simps)
  show ?thesis
  proof (cases "hello_scan (vn_id n) (k_junk K (clock (io s))) skb")
    case None
    then show ?thesis using that(1) assms n by (auto simp: vrr_rcv_hello_def vrr_get_node_def uninit_def)
  next
    case (Some p)
    obtain a tr where p: "p = (a, tr)" by (cases p)
    have less: "tr < 3" using hello_scan_less Some p by blast
    show ?thesis
      using that assms n Some p less
      by (auto simp: vrr_rcv_hello_def vrr_get_node_def uninit_def kmalloc_def tick_def io_onlyI split: if_splits)
  qed
qed

lemma rcv_hello_inv:
  assumes "sys_inv s" "vrr_rcv_hello K skb vh s = Some (r, t)" "length (skb_src_mac skb) = ETH_ALEN"
  shows "sys_inv t"
  using assms(2)
proof (cases rule: rcv_hello_effect)
  case 1
  then show ?thesis using sys_core_io assms(1) sys_inv_same_queue by (auto simp: sys_inv_def)
next
  case (2 i u)
  then show ?thesis
    using assms(1,3) by (auto simp: sys_inv_def sys_core_def net_def unlocked_def rt_inv_def vset_inv_def pset_inv_def
        core_inv_def pstate_ok_def node_ok_def socks_inv_def updates_ok_def work_ok_def)
qed

section \<open>Dispatch\<close>

lemma sys_inv_keeps: "keeps sys_core same_queue f \<Longrightarrow> sys_inv s \<Longrightarrow> f s = Some (r, t) \<Longrightarrow> sys_inv t"
  using keepsD [of sys_core same_queue f s r t] sys_inv_same_queue [of s t] by (simp add: sys_inv_def)

lemma sys_inv_keeps1: "keeps1 sys_core same_queue f \<Longrightarrow> sys_inv s \<Longrightarrow> f s = Some t \<Longrightarrow> sys_inv t"
  using keeps1D [of sys_core same_queue f s t] sys_inv_same_queue [of s t] by (simp add: sys_inv_def)

lemma sys_inv_io: "io_only s t \<Longrightarrow> sys_inv s \<Longrightarrow> sys_inv t"
  using sys_core_io sys_inv_same_queue by (auto simp: sys_inv_def)

lemma rcvfunc_inv:
  assumes "rb_keeps_order K" "sort_by_address K" "rx_lawful R" "length (skb_src_mac skb) = ETH_ALEN"
    and "sys_inv s" "vrr_rcvfunc K R ty skb vh s = Some (r, t)"
  shows "sys_inv t"
  using assms(6) unfolding vrr_rcvfunc_def
  by (auto split: if_splits dest!: sys_inv_keeps [OF rcv_data_keeps [OF assms(3)] assms(5)]
      rcv_hello_inv [OF assms(5) _ assms(4)] sys_inv_keeps [OF rcv_setup_keeps [OF assms(1,2)] assms(5)]
      sys_inv_keeps [OF sys_keeps_net [OF rcv_setup_req_keeps [OF assms(1,2)]] assms(5)]
      sys_inv_keeps [OF sys_keeps_net [OF rcv_setup_fail_keeps [OF assms(2)]] assms(5)]
      sys_inv_keeps [OF sys_keeps_net [OF rcv_teardown_keeps [OF assms(2)]] assms(5)])

lemma vrr_rcv_inv:
  assumes "rb_keeps_order K" "sort_by_address K" "rx_lawful R" "length (skb_src_mac skb) = ETH_ALEN"
    and "sys_inv s" "vrr_rcv K R skb s = Some (r, t)"
  shows "sys_inv t"
proof -
  have free: "sys_inv (kfree_skb i u)" if "sys_inv u" for i and u :: "'a input_globals_scheme"
    using sys_inv_io [OF io_only_services(1)] that by blast
  obtain vh where vh: "vrr_hdr skb = Some vh" using assms(6) by (auto simp: vrr_rcv_def run_simps)
  show ?thesis
  proof (cases "pkt_type vh \<ge> VRR_NPTYPES")
    case True
    then show ?thesis using assms(5,6) vh free by (auto simp: vrr_rcv_def)
  next
    case False
    then obtain s1 x s2 err s3 where 1: "reset_active_timeout s = Some s1" and 2: "pset_reset_fail_count (src_id vh) s1 = Some (x, s2)"
        and 3: "vrr_rcvfunc K R (pkt_type vh) skb vh s2 = Some (err, s3)" and 4: "t = s3 \<or> t = kfree_skb (skb_id skb) s3"
      using assms(6) vh by (auto simp: vrr_rcv_def run_simps split: if_splits)
    have "sys_inv s3"
      by (rule rcvfunc_inv [OF assms(1-4) _ 3])
        (rule sys_inv_keeps [OF reset_fail_count_keeps sys_inv_keeps1 [OF reset_active_timeout_keeps assms(5) 1] 2])
    then show ?thesis using 4 free by blast
  qed
qed

lemma workqueue_handler_keeps: "keeps1 sys_core same_queue (vrr_workqueue_handler K)"
  unfolding vrr_workqueue_handler_def
  by (rule detect_failures_keeps active_timeout_keeps sys_keeps_io [OF send_hpkt_io] sys.seq1 sys.seq sys.return(2) | assumption)+

section \<open>Two nodes\<close>

text \<open>The node of the examples with nothing queued, and a fresh node 7 that has not heard of anyone.\<close>

definition demo_input :: input_globals where
  "demo_input = sock_globals.extend demo_sock (input_globals.fields [] False)"

definition fresh_ps :: pset_state where
  "fresh_ps = demo_ps\<lparr>la_size := 0, lam_size := 0, lna_size := 0, lnam_size := 0, p_size := 0, pm_size := 0\<rparr>"

definition demo_peer :: input_globals where
  "demo_peer = demo_input\<lparr>ME := 7, pset := [], pset_size := 0, pstate := Some fresh_ps,
     vrr := map_option (\<lambda>n. n\<lparr>vn_id := 7\<rparr>) (vrr demo_input)\<rparr>"

lemmas demo_input_defs = demo_input_def demo_sock_def demo_core_def core_globals.defs sock_globals.defs input_globals.defs

lemma demo_input_ok [simp]: "sys_inv demo_input"
proof -
  have "socks_inv demo_input" by (simp add: demo_input_defs socks_inv_def)
  moreover have "net demo_input"
    by (simp add: net_def unlocked_def rt_inv_def rt_entries_ok_def vset_inv_def demo_input_defs)
  moreover have "pset_inv demo_input" "core_inv demo_input"
    using demo_core_ok by (simp_all add: pset_inv_def core_inv_def pstate_ok_def node_ok_def demo_input_defs)
  ultimately show ?thesis by (simp add: sys_inv_def sys_core_def updates_ok_def work_ok_def demo_input_defs)
qed

lemma fresh_ps_ok: "arrays_ok fresh_ps" "mirrors fresh_ps []"
  using demo_ps_ok(1) by (simp_all add: fresh_ps_def arrays_ok_def mirrors_def class_mirrors_def)

lemma demo_peer_ok [simp]: "sys_inv demo_peer"
proof -
  have n: "vrr demo_input \<noteq> None" by (simp add: demo_input_defs)
  have "core_inv demo_peer"
    using fresh_ps_ok demo_input_ok n by (auto simp: core_inv_def pstate_ok_def node_ok_def demo_peer_def sys_inv_def sys_core_def)
  moreover have "net demo_peer" "socks_inv demo_peer" "updates_ok demo_peer" "work_ok demo_peer"
    using demo_input_ok by (simp_all add: demo_peer_def sys_inv_def sys_core_def net_def unlocked_def rt_inv_def vset_inv_def
        socks_inv_def updates_ok_def work_ok_def demo_input_defs)
  moreover have "pset_inv demo_peer" by (simp add: demo_peer_def pset_inv_def)
  ultimately show ?thesis by (simp add: sys_inv_def sys_core_def)
qed

end
