(* ===== verification/System_Steps.thy ===== *)
theory System_Steps
  imports System_Inv
begin

text \<open>
  The module as a transition system: what can happen to a loaded module, one rule per entry point
  the kernel calls, each a complete run of the code behind it. Runs are sequences of such steps.
  That a property holds in every state of every run is the contract of the locale
  \<open>transition_system\<close>; it is interpreted on this system with the invariant \<open>sys_inv\<close>.
\<close>

section \<open>Runs of a transition system\<close>

inductive run :: "('e \<Rightarrow> 's \<Rightarrow> 's \<Rightarrow> bool) \<Rightarrow> 's \<Rightarrow> 'e list \<Rightarrow> 's \<Rightarrow> bool" for step where
  run_nil: "run step s [] s"
| run_step: "run step s es t \<Longrightarrow> step e t u \<Longrightarrow> run step s (es @ [e]) u"

locale transition_system =
  fixes init :: "'s \<Rightarrow> bool" and step :: "'e \<Rightarrow> 's \<Rightarrow> 's \<Rightarrow> bool" and inv :: "'s \<Rightarrow> bool"
  assumes init_inv: "init s \<Longrightarrow> inv s"
    and step_inv: "inv s \<Longrightarrow> step e s t \<Longrightarrow> inv t"
begin

lemma run_inv: "run step s es t \<Longrightarrow> inv s \<Longrightarrow> inv t"
  by (induction rule: run.induct) (auto intro: step_inv)

lemma reachable_inv: "init s \<Longrightarrow> run step s es t \<Longrightarrow> inv t"
  using run_inv init_inv by blast

end

section \<open>The steps of a node\<close>

type_synonym rx = "nat \<Rightarrow> sk_buff \<Rightarrow> mod_globals \<Rightarrow> int \<times> mod_globals"

datatype event =
    Packet sk_buff
  | Timer
  | Hello_Work
  | Update_Work
  | Create nat int int
  | Connect nat sockaddr_vrr int
  | Sendmsg "sockaddr_vrr option" "u8 list option" nat
  | Recvmsg bool bool bool nat nat

inductive node_step :: "kenv \<Rightarrow> rx \<Rightarrow> event \<Rightarrow> mod_globals \<Rightarrow> mod_globals \<Rightarrow> bool" for K R where
  packet: "pack_registered s \<Longrightarrow> length (skb_src_mac skb) = ETH_ALEN \<Longrightarrow> vrr_rcv K R skb s = Some (r, t) \<Longrightarrow>
     node_step K R (Packet skb) s t"
| timer: "timer_armed s \<Longrightarrow> node_step K R Timer s (vrr_timer_tick s)"
| hello_work: "hello_work s \<Longrightarrow> vrr_workqueue_handler K (s\<lparr>hello_work := False\<rparr>) = Some t \<Longrightarrow>
     node_step K R Hello_Work s t"
| update_work: "update_work s \<Longrightarrow> pset_update_handler K (s\<lparr>update_work := False\<rparr>) = Some t \<Longrightarrow>
     node_step K R Update_Work s t"
| create: "family_registered s \<Longrightarrow> socks s i = None \<Longrightarrow> vrr_create K i type proto s = (r, t) \<Longrightarrow>
     node_step K R (Create i type proto) s t"
| connect: "vrr_connect i (Some a) len s = Some (r, t) \<Longrightarrow> node_step K R (Connect i a len) s t"
| sendmsg: "vrr_sendmsg K d user len s = Some (r, t) \<Longrightarrow> node_step K R (Sendmsg d user len) s t"
| recvmsg: "vrr_recvmsg cf dw pk i len s = Some (r, t) \<Longrightarrow> node_step K R (Recvmsg cf dw pk i len) s t"

inductive_cases node_stepE: "node_step K R e s t"
inductive_simps packet_step: "node_step K R (Packet skb) s t"

text \<open>The globals as the loader leaves them, and a machine: an environment, a socket layer and a state.\<close>

definition loaded :: "kio \<Rightarrow> mod_globals" where
  "loaded i = \<lparr>io = i, held = (\<lambda>l. False), ME = 0, rt_root = \<langle>\<rangle>, pset = [], pset_size = 0, vset = [], vset_size = 0,
     vrr = None, pstate = None, socks = Map.empty, hlist = replicate VRR_HASHSIZE [], pset_updates = [],
     update_work = False, proto_registered = False, kobj_refs = 0, family_registered = False,
     pack_registered = False, timer_armed = False, hello_work = False\<rparr>"

type_synonym machine = "kenv \<times> rx \<times> mod_globals"

definition lawful :: "kenv \<Rightarrow> rx \<Rightarrow> bool" where
  "lawful K R \<longleftrightarrow> rb_keeps_order K \<and> sort_by_address K \<and> rx_lawful R"

text \<open>
  A machine that has just loaded the module: \<open>vrr_init\<close> returned 0 and, what it does not check, the
  physical set copy was allocated.
\<close>

definition machine_init :: "machine \<Rightarrow> bool" where
  "machine_init m \<longleftrightarrow> (case m of (K, R, s) \<Rightarrow>
     lawful K R \<and> (\<exists>b i. vrr_init K b (loaded i) = Some (0, s)) \<and> pstate s \<noteq> None)"

definition machine_step :: "event \<Rightarrow> machine \<Rightarrow> machine \<Rightarrow> bool" where
  "machine_step e m m' \<longleftrightarrow> (case m of (K, R, s) \<Rightarrow> case m' of (K', R', t) \<Rightarrow> K' = K \<and> R' = R \<and> node_step K R e s t)"

definition machine_inv :: "machine \<Rightarrow> bool" where
  "machine_inv m \<longleftrightarrow> (case m of (K, R, s) \<Rightarrow> lawful K R \<and> sys_inv s)"

section \<open>Initialisation establishes the invariant\<close>

lemma add_interfaces_io: "add_interfaces K ds devs s = Some (r, t) \<Longrightarrow> io_only s t"
proof (induction ds arbitrary: devs s)
  case (Cons d ds)
  then show ?case
    by (auto simp: kmalloc_def split: if_splits intro: io_only_trans [OF io_only_tick])
qed simp

lemma vrr_node_init_run:
  assumes "vrr_node_init K s = Some (r, t)"
  obtains i n where "t = s\<lparr>io := i, vrr := Some n\<rparr>" "vn_active n = 0" "vn_timeout n = 0" "r = 0"
  | "t = s\<lparr>io := io t, vrr := None\<rparr>" "r = -1"
proof (cases "k_alloc K (clock (io s))")
  case False
  then show ?thesis using that(2) assms by (auto simp: vrr_node_init_def kmalloc_def tick_def)
next
  case True
  with assms obtain devs u where 1: "add_interfaces K (k_netdevs K) [] (tick (tick s)) = Some (devs, u)"
    and t: "t = (tick u)\<lparr>vrr := Some \<lparr>vn_id = k_random K (clock (io u)), vn_vset_size = 4, vn_rtable_value = 0, vn_version = 1,
                          vn_active = 0, vn_timeout = 0, vn_dev_list = devs\<rparr>\<rparr>" and r: "r = 0"
    by (auto simp: vrr_node_init_def kmalloc_def get_random_bytes_def run_simps split: if_splits)
  have "io_only s u" using add_interfaces_io [OF 1] by (simp add: io_only_tick_iff)
  then obtain i where "u = s\<lparr>io := i\<rparr>" by (rule io_onlyE)
  then show ?thesis using that(1) t r by (simp add: tick_def)
qed

lemma vrr_init_inv:
  assumes "vrr_init K b (loaded i) = Some (r, s)" "pstate s \<noteq> None"
  shows "sys_inv s"
proof -
  obtain x s1 where 1: "vrr_node_init K (loaded i) = Some (x, s1)"
    using assms(1) by (auto simp: vrr_init_def run_simps)
  obtain j n where s1: "s1 = (loaded i)\<lparr>io := j, vrr := Some n\<rparr>" "vn_active n = 0" "vn_timeout n = 0"
    using 1
  proof (cases rule: vrr_node_init_run)
    case 2
    then have "vrr s1 = None" by (metis core_globals.select_convs(1) core_globals.surjective core_globals.update_convs(1))
    then show ?thesis using assms(1) 1 by (simp add: vrr_init_def vrr_data_init_def get_vrr_id_def)
  qed
  define s2 where "s2 = s1\<lparr>ME := vn_id n\<rparr>"
  have d: "vrr_data_init s1 = Some s2" by (simp add: vrr_data_init_def get_vrr_id_def s1 s2_def loaded_def)
  define s3 where "s3 = snd (pset_state_init K s2)"
  have s: "\<exists>p k f q tm. s = s3\<lparr>proto_registered := p, kobj_refs := k, family_registered := f, pack_registered := q, timer_armed := tm\<rparr>
      \<and> pset_updates s3 = []"
    using assms(1) 1 d
    by (auto simp: vrr_init_def s3_def vrr_init_rcv_def mod_timer_def Let_def split_beta pset_state_init_def kmalloc_def
        uninit_def tick_def s2_def s1 loaded_def split: if_splits)
  then have "pstate s3 \<noteq> None" using assms(2) by auto
  then obtain k ps where s3: "s3 = s2\<lparr>io := k, pstate := Some ps\<rparr>" "arrays_ok ps" "mirrors ps []"
    by (auto simp: s3_def pset_state_init_def kmalloc_def uninit_def tick_def Let_def arrays_ok_def mirrors_def class_mirrors_def
        split: if_splits)
  show ?thesis
    using s s1(2,3) s3(2,3)
    by (auto simp: s3(1) s2_def s1(1) loaded_def sys_inv_def sys_core_def work_ok_def net_def unlocked_def rt_inv_def rt_entries_ok_def
        vset_inv_def pset_inv_def core_inv_def pstate_ok_def node_ok_def socks_inv_def updates_ok_def)
qed

section \<open>Every step keeps it\<close>

lemma sys_inv_flags:
  "sys_inv (s\<lparr>hello_work := b\<rparr>) = sys_inv s" "sys_inv (s\<lparr>timer_armed := c\<rparr>) = sys_inv s"
  by (simp_all add: sys_inv_def sys_core_def work_ok_def net_def unlocked_def rt_inv_def vset_inv_def pset_inv_def core_inv_def
      pstate_ok_def node_ok_def socks_inv_def updates_ok_def)

lemma sys_inv_sock: "sock_only s t \<Longrightarrow> socks_inv t \<Longrightarrow> sys_inv s \<Longrightarrow> sys_inv t"
  using sys_core_sock [of s t] sys_inv_same_queue [of s t] by (simp add: sys_inv_def)

lemma create_inv:
  assumes "socks_inv s" "socks s i = None" "vrr_create K i ty pr s = (r, t)"
  shows "sock_only s t \<and> socks_inv t"
proof (cases "pr = 0 \<and> ty = SOCK_RAW \<and> k_alloc K (clock (io s))")
  case True
  define u where "u = (tick s)\<lparr>socks := (socks s)(i \<mapsto> \<lparr>rem_addr = 0, sk_state = SS_UNCONNECTED, sk_refcnt = 1, sk_receive_queue = []\<rparr>)\<rparr>"
  have t: "t = sock_hold i u" using assms(3) True by (auto simp: vrr_create_def kmalloc_def u_def tick_def)
  have "sock_only s u" by (simp add: u_def sock_only_def tick_def)
  moreover have "socks_inv u" using assms(1,2) by (fastforce simp: socks_inv_def u_def tick_def)
  ultimately show ?thesis using t socks_inv_counts(1) sock_only_trans sock_only_counts(1) by blast
next
  case False
  then have "io_only s t" using assms(3) by (auto simp: vrr_create_def kmalloc_def split: if_splits)
  then show ?thesis using assms(1) by (auto simp: sock_only_io socks_inv_def elim!: io_onlyE)
qed

lemma connect_inv:
  assumes "sys_inv s" "vrr_connect i (Some a) len s = Some (r, t)"
  shows "sock_only s t \<and> socks_inv t"
proof -
  have st: "\<not> held s vrr_socks_lock" "socks_inv s" using assms(1) by (simp_all add: sys_inv_def sys_core_def net_def)
  obtain sk where sk: "socks s i = Some sk" using assms(2) by (auto simp: vrr_connect_def vrr_connect_locked_def run_simps)
  have c: "sock_only s (connected i b s)" for b by (simp add: connected_def Let_def sock_only_def upd_sock_def)
  show ?thesis
    using assms(2) vrr_connect_run [OF st sk, of a len] st(2) socks_inv_connected [OF st(2) sk] c by (auto split: if_splits)
qed

text \<open>Sending a message touches the kernel's side only.\<close>

abbreviation (input) any_state :: "'s \<Rightarrow> bool" where "any_state \<equiv> \<lambda>s. True"

interpretation iof: state_frame any_state io_only
  by unfold_locales (auto intro: io_only_trans)

lemma keeps_any_io: "(\<And>s r t. f s = Some (r, t) \<Longrightarrow> io_only s t) \<Longrightarrow> keeps any_state io_only f"
  by (simp add: keeps_def)

lemma keeps_free: "keeps any_state io_only (\<lambda>s. Some (r, kfree_skb i s))"
  by (auto simp: keeps_def)

lemma skb_alloc_snd: "io_only s (snd (vrr_skb_alloc K d s))"
  by (metis io_only_skb_alloc prod.collapse)

lemma any_pair_io: "(\<And>s. io_only s (snd (f s))) \<Longrightarrow> True \<and> io_only s (snd (f s))"
  by simp

lemma sendmsg_keeps: "keeps any_state io_only (vrr_sendmsg K d u len)"
  unfolding vrr_sendmsg_def
  by (rule keeps_any_io [OF io_only_vrr_output] keeps_any_io [OF io_only_build_header] keeps_free
      keeps_any_io [OF io_only_same [OF same_state(1)]] keeps_any_io [OF io_only_same [OF pset_get_mac_state [THEN conjunct1]]]
      iof.bind iof.let_bind iof.return keeps_if keeps_option keeps_prod keeps_prod_fun keeps_let keeps_read
      any_pair_io uninit_io skb_alloc_snd | assumption)+

lemma advance_inv:
  assumes "vrr_advance_rx_queue i s = Some t"
  shows "sock_only s t \<and> (socks_inv s \<longrightarrow> socks_inv t)"
proof -
  obtain sk where sk: "socks s i = Some sk" using assms by (auto simp: vrr_advance_rx_queue_def run_simps)
  show ?thesis
  proof (cases "sk_receive_queue sk")
    case Nil
    then show ?thesis using assms sk by (simp add: vrr_advance_rx_queue_def)
  next
    case (Cons skb rest)
    define u where "u = upd_sock i (\<lambda>k. k\<lparr>sk_receive_queue := rest\<rparr>) s"
    have t: "t = kfree_skb (skb_id skb) u" using assms sk Cons by (simp add: vrr_advance_rx_queue_def u_def)
    have "sock_only s t" unfolding t by (rule sock_only_trans [of _ u]) (simp_all add: u_def sock_only_io)
    moreover have "socks_inv s \<Longrightarrow> socks_inv t" unfolding t u_def
      using socks_inv_upd [of s "\<lambda>k. k\<lparr>sk_receive_queue := rest\<rparr>" i] socks_inv_cong [of "kfree_skb (skb_id skb) u" u]
      by (simp add: u_def kfree_skb_def)
    ultimately show ?thesis by blast
  qed
qed

interpretation skf: state_frame socks_inv sock_only
  by unfold_locales (auto intro: sock_only_trans)

lemma advance_keeps: "keeps1 socks_inv sock_only (vrr_advance_rx_queue i)"
  by (auto simp: keeps1_def dest: advance_inv)

lemma recv_round_keeps: "keeps socks_inv sock_only (recv_round cf dw pk i len)"
  unfolding recv_round_def
  by (rule advance_keeps skf.bind1 skf.return keeps_if keeps1_if keeps_list keeps_let keeps_read)+

lemma recv_loop_keeps: "keeps socks_inv sock_only (recv_loop fuel cf dw pk i len :: 'z sock_globals_scheme \<Rightarrow> _)"
proof (induction fuel)
  case 0
  then show ?case by (simp add: keeps_def)
next
  case (Suc fuel)
  have "keeps socks_inv sock_only (\<lambda>s :: 'z sock_globals_scheme. recv_round cf dw pk i len s \<bind>
      (\<lambda>(r, s). case r of None \<Rightarrow> recv_loop fuel cf dw pk i len s | Some res \<Rightarrow> Some (res, s)))"
    by (rule skf.bind recv_round_keeps keeps_option Suc.IH skf.return)+
  then show ?case by simp
qed

lemma recvmsg_keeps: "keeps socks_inv sock_only (vrr_recvmsg cf dw pk i len)"
  unfolding vrr_recvmsg_def by (rule keeps_read recv_loop_keeps)+

lemma node_step_inv:
  assumes "lawful K R" "sys_inv s" "node_step K R e s t"
  shows "sys_inv t"
  using assms(3)
proof (cases rule: node_step.cases)
  case (packet skb r)
  then show ?thesis using vrr_rcv_inv [of K R skb s r t] assms(1,2) by (simp add: lawful_def)
next
  case timer
  then show ?thesis using assms(2) by (simp add: vrr_timer_tick_def mod_timer_def sys_inv_flags)
next
  case hello_work
  then show ?thesis using sys_inv_keeps1 [OF workqueue_handler_keeps] assms(2) sys_inv_flags(1) by blast
next
  case update_work
  then show ?thesis using update_handler_inv [OF assms(2)] by blast
next
  case (create i ty pr r)
  then show ?thesis using create_inv [of s i K ty pr r t] sys_inv_sock assms(2) by (auto simp: sys_inv_def sys_core_def)
next
  case (connect i a len r)
  then show ?thesis using connect_inv [OF assms(2)] sys_inv_sock assms(2) by blast
next
  case (sendmsg d u len r)
  then show ?thesis using keepsD [OF sendmsg_keeps] sys_inv_io assms(2) by blast
next
  case (recvmsg cf dw pk i len r)
  then show ?thesis using keepsD [OF recvmsg_keeps, of s] sys_inv_sock [of s t] assms(2) by (auto simp: sys_inv_def sys_core_def)
qed

interpretation vrr_sys: transition_system machine_init machine_step machine_inv
proof
  show "machine_inv m" if "machine_init m" for m
    using that vrr_init_inv by (cases m) (fastforce simp: machine_init_def machine_inv_def)
  show "machine_inv m'" if "machine_inv m" "machine_step e m m'" for m e m'
    using that node_step_inv by (cases m; cases m') (auto simp: machine_inv_def machine_step_def)
qed

end
