(* ===== verification/Handshake.thy ===== *)
theory Handshake
  imports System_Steps
begin

text \<open>
  The hello handshake between two neighbours: what a hello packet says about the receiver, what the
  receiver makes of it, and where repeated exchanges lead. The first part follows one packet through
  the code of both nodes (\<open>send_hpkt\<close>, \<open>vrr_rcv\<close>, \<open>pset_update_handler\<close>); the second iterates the
  resulting change of link states.
\<close>

section \<open>What a hello says\<close>

text \<open>The column of the transition table the receiver selects, given how the sender records it.\<close>

definition hello_column :: "u32 \<Rightarrow> nat" where
  "hello_column st = (if st = PSET_LINKED then TRANS_LINKED else if st = PSET_PENDING then TRANS_PENDING else TRANS_MISSING)"

lemma unat_of_nat_small: "n \<le> 20 \<Longrightarrow> unat (of_nat n :: u32) = n"
  by (simp add: unsigned_of_nat take_bit_eq_mod)

lemma of_nat_small_le: "n \<le> 20 \<Longrightarrow> \<not> of_nat n > (of_nat VRR_PSET_SIZE :: u32)"
  using of_nat_u32_less [of 20 n] by simp

lemma hello_scan_carries:
  assumes "carries h ([act, of_nat (length A), of_nat (length B), of_nat (length C)] @ A @ B @ C) (skb_data skb)"
    and "length A \<le> VRR_PSET_SIZE" "length B \<le> VRR_PSET_SIZE" "length C \<le> VRR_PSET_SIZE"
  shows "hello_scan me st skb = Some (act, scan me C TRANS_PENDING (scan me B TRANS_LINKED (scan me A TRANS_LINKED TRANS_MISSING)))"
proof -
  define ws where "ws = [act, of_nat (length A), of_nat (length B), of_nat (length C)] @ A @ B @ C"
  have c: "carries h ws (skb_data skb)" using assms(1) by (simp add: ws_def)
  have w: "read_u32 skb sizeof_vrr_header o0 = act" "read_u32 skb (sizeof_vrr_header + 4) o1 = of_nat (length A)"
      "read_u32 skb (sizeof_vrr_header + 8) o2 = of_nat (length B)" "read_u32 skb (sizeof_vrr_header + 12) o3 = of_nat (length C)" for o0 o1 o2 o3
    using carries_word [OF c, of 0] carries_word [OF c, of 1] carries_word [OF c, of 2] carries_word [OF c, of 3]
    by (simp_all add: ws_def numeral_eq_Suc)
  have d: "take (length A) (drop 4 ws) = A" "take (length B) (drop (4 + length A) ws) = B"
      "take (length C) (drop (4 + length A + length B) ws) = C"
    by (simp_all add: ws_def numeral_eq_Suc)
  have l: "length ws = 4 + length A + length B + length C" by (simp add: ws_def)
  have a: "read_u32s skb (sizeof_vrr_header + 16) (length A) o4 = A"
      "read_u32s skb (sizeof_vrr_header + 16 + 4 * length A) (length B) o5 = B"
      "read_u32s skb (sizeof_vrr_header + 16 + 4 * length A + 4 * length B) (length C) o6 = C" for o4 o5 o6
    using carries_words [OF c, of 4 "length A" "sizeof_vrr_header + 16"]
      carries_words [OF c, of "4 + length A" "length B" "sizeof_vrr_header + 16 + 4 * length A"]
      carries_words [OF c, of "4 + length A + length B" "length C" "sizeof_vrr_header + 16 + 4 * length A + 4 * length B"]
    unfolding d l by simp_all
  show ?thesis
    using assms(2-4) by (simp add: hello_scan_def Let_def w a unat_of_nat_small of_nat_small_le del: of_nat_numeral)
qed

text \<open>The three lists of a hello name a node according to the sender's record of it.\<close>

lemma class_member:
  assumes "pset_inv s"
  shows "x \<in> pl_node ` set (filter P (pset s)) \<longleftrightarrow> (\<exists>e. neighbour s x = Some e \<and> P e)"
  using assms first_match_distinct [of pl_node "pset s"] unfolding neighbour_def pset_inv_def
  by (fastforce dest: first_match_SomeD)

lemma hello_lists_column:
  assumes "pset_inv s"
  shows "scan x (map pl_node (filter link_pending (pset s))) TRANS_PENDING
     (scan x (map pl_node (filter linked_inactive (pset s))) TRANS_LINKED
       (scan x (map pl_node (filter linked_active (pset s))) TRANS_LINKED TRANS_MISSING)) = hello_column (link_status s x)"
  using class_member [OF assms]
  by (cases "neighbour s x") (auto simp: scan_def hello_column_def link_status_def link_class_defs simp del: set_filter)

section \<open>What the receiver makes of it\<close>

lemma fits_short: "length es \<le> VRR_PSET_SIZE \<Longrightarrow> fits es"
  unfolding fits_def by (meson length_filter_le order_trans)

lemma pset_state_update_short:
  assumes "stale s" "length (pset s) \<le> VRR_PSET_SIZE"
  obtains ps where "pset_state_update s = Some (s\<lparr>pstate := Some ps\<rparr>)"
proof -
  obtain ps where "pstate s = Some ps" "arrays_ok ps" using assms(1) by (auto simp: stale_def)
  then show ?thesis using that pset_state_update_run fits_short [OF assms(2)] by metis
qed

lemma link_status_pstate [simp]: "link_status (s\<lparr>pstate := p\<rparr>) x = link_status s x"
  by (simp add: link_status_def neighbour_def)

lemma link_status_new:
  "link_status s node = PSET_UNKNOWN \<Longrightarrow> pset_inv s \<Longrightarrow> neighbour s node = None"
  by (auto simp: link_status_def pset_inv_def entry_ok_def split: option.splits dest!: neighbour_in_pset)

lemma record_link_run:
  assumes "sys_core s" "update_ok u" "nxt \<in> {PSET_LINKED, PSET_PENDING, PSET_FAILED}" "\<forall>i. k_alloc K i"
    and room: "length (pset s) < VRR_PSET_SIZE" "pset_size s < INT_MAX"
  shows "\<exists>t. record_link K u (link_status s (pu_node u)) nxt
         (case neighbour s (pu_node u) of None \<Rightarrow> 0 | Some e \<Rightarrow> pl_active e) s = Some t
     \<and> (\<forall>x. link_status t x = (if x = pu_node u then nxt else link_status s x)) \<and> vset_size t = vset_size s"
proof -
  let ?cur = "link_status s (pu_node u)"
  have st: "pset_inv s" "\<not> held s vrr_pset_lock" using assms(1) by (simp_all add: sys_core_def net_def)
  have m: "length (pu_mac u) = ETH_ALEN" using assms(2) by (simp add: update_ok_def)
  show ?thesis
  proof (cases "?cur = PSET_UNKNOWN")
    case True
    have n: "neighbour s (pu_node u) = None" by (rule link_status_new [OF True st(1)])
    define t where "t = (tick s)\<lparr>pset := \<lparr>pl_node = pu_node u, pl_status = nxt, pl_active = (if pu_active u \<noteq> 0 then 1 else 0),
        pl_mac = pu_mac u, fail_count = 0\<rparr> # pset s, pset_size := pset_size s + 1\<rparr>"
    have add: "pset_add K (pu_node u) (pu_mac u) nxt (pu_active u) s = Some (1, t)"
      using pset_add_new [OF st(2) n] assms(4) room(2) by (simp add: t_def)
    have "stale t" using pset_add_stale [OF assms(1,3) m add] by simp
    then obtain ps where "pset_state_update t = Some (t\<lparr>pstate := Some ps\<rparr>)"
      by (rule pset_state_update_short) (use room(1) in \<open>simp add: t_def\<close>)
    moreover have "link_status t x = (if x = pu_node u then nxt else link_status s x)" "vset_size t = vset_size s" for x
      by (simp_all add: t_def link_status_def neighbour_def tick_def)
    ultimately show ?thesis using True add by (simp add: record_link_def)
  next
    case False
    then obtain e where e: "neighbour s (pu_node u) = Some e" by (auto simp: link_status_def split: option.splits)
    show ?thesis
    proof (cases "?cur \<noteq> nxt \<or> pl_active e \<noteq> pu_active u")
      case True
      define f where "f = (\<lambda>tmp :: pset_entry. tmp\<lparr>pl_status := nxt, pl_active := (if pu_active u \<noteq> 0 then 1 else 0)\<rparr>)"
      define t where "t = s\<lparr>pset := upd_first (\<lambda>tmp. pl_node tmp = pu_node u) f (pset s)\<rparr>"
      have upd: "pset_update_status (pu_node u) nxt (pu_active u) s = Some (1, t)"
        using e by (simp add: pset_update_status_run [OF st(2)] t_def f_def)
      have "stale t" using pset_update_status_stale [OF assms(1,3) upd] by simp
      then obtain ps where "pset_state_update t = Some (t\<lparr>pstate := Some ps\<rparr>)"
        by (rule pset_state_update_short) (use room(1) in \<open>simp add: t_def\<close>)
      moreover have "link_status t x = (if x = pu_node u then nxt else link_status s x)" "vset_size t = vset_size s" for x
        using e neighbour_update [where f = f and s = s and node = "pu_node u" and x = x] by (simp_all add: t_def link_status_def f_def)
      ultimately show ?thesis using False True e upd by (simp add: record_link_def)
    next
      case same: False
      then show ?thesis using False e by (auto simp: record_link_def)
    qed
  qed
qed

lemma sys_core_can_send:
  assumes "sys_core s"
  obtains n where "can_send s n" "vrr s = Some n" "vn_id n = ME s"
  using assms by (auto simp: sys_core_def net_def core_inv_def node_ok_def can_send_def)

lemma ask_proxy_run:
  assumes "sys_core s" "\<forall>i. k_alloc K i" "4 * (vset_size s + 2) \<le> INT_MAX"
  shows "\<exists>t. ask_proxy K u nxt s = Some t \<and> io_only s t"
proof -
  obtain n where n: "can_send s n" "vrr s = Some n" using sys_core_can_send [OF assms(1)] by blast
  obtain t where t: "send_setup_req K (vn_id n) (vn_id n) (pu_node u) s = Some (0, t)"
    using send_setup_req_run [OF n(1) assms(2,3)] by blast
  then show ?thesis using n(2) send_setup_req_io [OF t] by (auto simp: ask_proxy_def vrr_get_node_def)
qed

lemma apply_update_link_status:
  assumes "sys_core s" "update_ok u" "\<forall>i. k_alloc K i"
    and "length (pset s) < VRR_PSET_SIZE" "pset_size s < INT_MAX" "4 * (vset_size s + 2) \<le> INT_MAX"
  shows "\<exists>t nxt. apply_update K u s = Some t \<and> next_link_state (link_status s (pu_node u)) (pu_trans u) = Some nxt
     \<and> (\<forall>x. link_status t x = (if x = pu_node u then nxt else link_status s x))"
proof -
  obtain nxt where nxt: "next_link_state (link_status s (pu_node u)) (pu_trans u) = Some nxt"
      "nxt \<in> {PSET_LINKED, PSET_PENDING, PSET_FAILED}"
    and eq: "apply_update K u s = do {
       s \<leftarrow> record_link K u (link_status s (pu_node u)) nxt (case neighbour s (pu_node u) of None \<Rightarrow> 0 | Some e \<Rightarrow> pl_active e) s;
       ask_proxy K u nxt s }"
    by (rule apply_update_run [OF assms(1,2)])
  obtain s1 where 1: "record_link K u (link_status s (pu_node u)) nxt
         (case neighbour s (pu_node u) of None \<Rightarrow> 0 | Some e \<Rightarrow> pl_active e) s = Some s1"
      "\<forall>x. link_status s1 x = (if x = pu_node u then nxt else link_status s x)" "vset_size s1 = vset_size s"
    using record_link_run [OF assms(1,2) nxt(2) assms(3-5)] by blast
  have "sys_core s1" using keeps1D [OF record_link_keeps [OF assms(2) nxt(2)] assms(1) 1(1)] by simp
  then obtain t where t: "ask_proxy K u nxt s1 = Some t" "io_only s1 t"
    using ask_proxy_run assms(3,6) 1(3) by metis
  then have "\<forall>x. link_status t x = (if x = pu_node u then nxt else link_status s x)"
    using 1(2) link_status_io_only [OF t(2)] by simp
  then show ?thesis using eq 1(1) t(1) nxt(1) by auto
qed

section \<open>One packet, end to end\<close>

text \<open>Resetting the timers of a known sender changes no link status.\<close>

lemma reset_counters_run:
  assumes "sys_core s"
  obtains t where "reset_active_timeout s \<bind> pset_reset_fail_count x = Some (if neighbour s x = None then -1 else 0, t)"
    "sys_core t" "same_queue s t" "\<forall>y. link_status t y = link_status s y" "length (pset t) = length (pset s)"
    "pset_size t = pset_size s" "vset_size t = vset_size s" "ME t = ME s" "io t = io s"
proof -
  obtain n where n: "vrr s = Some n" using assms by (auto simp: sys_core_def core_inv_def node_ok_def)
  define s1 where "s1 = s\<lparr>vrr := Some (n\<lparr>vn_timeout := 0\<rparr>)\<rparr>"
  define t where "t = s1\<lparr>pset := upd_first (\<lambda>tmp. pl_node tmp = x) (\<lambda>tmp. tmp\<lparr>fail_count := 0\<rparr>) (pset s1)\<rparr>"
  have 1: "reset_active_timeout s = Some s1" using n by (simp add: reset_active_timeout_def s1_def)
  have c1: "sys_core s1 \<and> same_queue s s1" by (rule keeps1D [OF reset_active_timeout_keeps assms 1])
  then have u: "\<not> held s1 vrr_pset_lock" by (simp add: sys_core_def net_def)
  have nb: "neighbour s1 = neighbour s" by (simp add: s1_def neighbour_def fun_eq_iff)
  have 2: "pset_reset_fail_count x s1 = Some (if neighbour s x = None then -1 else 0, t)"
    by (simp add: pset_reset_fail_count_run [OF u] nb t_def)
  have c2: "sys_core t \<and> same_queue s1 t" using keepsD [OF reset_fail_count_keeps _ 2] c1 by simp
  have "link_status t y = link_status s y" for y
    using neighbour_update [where f = "\<lambda>tmp. tmp\<lparr>fail_count := 0\<rparr>" and s = s1 and node = x and x = y] nb
    by (auto simp: t_def link_status_def split: option.split)
  then show ?thesis
    using that [of t] 1 2 c1 c2 sys.frame_trans [of s s1 t] by (simp add: t_def s1_def)
qed

lemma receive_hello:
  assumes "sys_inv s" "\<forall>i. k_alloc K i" "length (skb_src_mac skb) = ETH_ALEN"
    and "vrr_hdr skb = Some h" "pkt_type h = VRR_HELLO" "\<And>st. hello_scan (ME s) st skb = Some (act, tr)"
  obtains t where "vrr_rcv K R skb s = Some (NET_RX_SUCCESS, t)" "sys_inv t" "update_work t"
    "pset_updates t = pset_updates s @ [\<lparr>pu_node = src_id h, pu_mac = skb_src_mac skb, pu_trans = tr, pu_active = act\<rparr>]"
    "\<forall>y. link_status t y = link_status s y" "length (pset t) = length (pset s)"
    "pset_size t = pset_size s" "vset_size t = vset_size s"
proof -
  have core: "sys_core s" using assms(1) by (simp add: sys_inv_def)
  obtain s1 where 1: "reset_active_timeout s \<bind> pset_reset_fail_count (src_id h) = Some (if neighbour s (src_id h) = None then -1 else 0, s1)"
      "sys_core s1" "same_queue s s1" "\<forall>y. link_status s1 y = link_status s y" "length (pset s1) = length (pset s)"
      "pset_size s1 = pset_size s" "vset_size s1 = vset_size s" "ME s1 = ME s"
    by (rule reset_counters_run [OF core])
  have inv1: "sys_inv s1" using sys_inv_same_queue assms(1) 1(2,3) by blast
  obtain n where n: "vrr s1 = Some n" "vn_id n = ME s" using 1(2,8) by (auto elim: sys_core_can_send)
  define u where "u = \<lparr>pu_node = src_id h, pu_mac = skb_src_mac skb, pu_trans = tr, pu_active = act\<rparr>"
  define t where "t = (tick (tick s1))\<lparr>pset_updates := pset_updates s1 @ [u], update_work := True\<rparr>"
  have h: "vrr_rcv_hello K skb h s1 = Some (0, t)"
    using n assms(2,6) by (simp add: vrr_rcv_hello_def vrr_get_node_def uninit_def kmalloc_def t_def u_def tick_def)
  have "sys_inv t" by (rule rcv_hello_inv [OF inv1 h assms(3)])
  moreover have "vrr_rcv K R skb s = Some (NET_RX_SUCCESS, t)"
    using assms(4,5) 1(1) h by (auto simp: vrr_rcv_def vrr_rcvfunc_def run_simps word_le_nat_alt)
  moreover have "link_status t y = link_status s1 y" for y by (simp add: t_def link_status_def neighbour_def tick_def)
  ultimately show ?thesis
    using that [of t] 1(3-7) by (simp add: t_def u_def same_queue_def tick_def)
qed

text \<open>A node that can take part: it has room for one more neighbour and nothing is queued.\<close>

definition has_room :: "'z input_globals_scheme \<Rightarrow> bool" where
  "has_room s \<longleftrightarrow> pset_updates s = [] \<and> length (pset s) < VRR_PSET_SIZE \<and> pset_size s < INT_MAX \<and> 4 * (vset_size s + 2) \<le> INT_MAX"

text \<open>Receiving a packet, then running the work item it queued.\<close>

definition process :: "kenv \<Rightarrow> 'z rx_layer \<Rightarrow> sk_buff \<Rightarrow> 'z input_globals_scheme \<Rightarrow> 'z input_globals_scheme option" where
  "process K R skb s = do {
     (_, s) \<leftarrow> vrr_rcv K R skb s;
     pset_update_handler K (s\<lparr>update_work := False\<rparr>)
   }"

lemma queue_upd_irrelevant:
  "sys_core (s\<lparr>update_work := b\<rparr>) = sys_core s" "link_status (s\<lparr>update_work := b\<rparr>) = link_status s"
  "link_status (s\<lparr>pset_updates := us\<rparr>) = link_status s"
  by (simp_all add: sys_core_def net_def unlocked_def rt_inv_def vset_inv_def pset_inv_def core_inv_def pstate_ok_def node_ok_def
      socks_inv_def updates_ok_def link_status_def neighbour_def fun_eq_iff)

lemma process_hello:
  assumes "sys_inv s" "has_room s" "\<forall>i. k_alloc K i" "length (skb_src_mac skb) = ETH_ALEN"
    and "vrr_hdr skb = Some h" "pkt_type h = VRR_HELLO" "\<And>st. hello_scan (ME s) st skb = Some (act, tr)"
  shows "\<exists>t nxt. process K R skb s = Some t \<and> sys_inv t \<and> next_link_state (link_status s (src_id h)) tr = Some nxt
     \<and> (\<forall>x. link_status t x = (if x = src_id h then nxt else link_status s x))"
proof -
  define u where "u = \<lparr>pu_node = src_id h, pu_mac = skb_src_mac skb, pu_trans = tr, pu_active = act\<rparr>"
  obtain t where t: "vrr_rcv K R skb s = Some (NET_RX_SUCCESS, t)" "sys_inv t" "pset_updates t = [u]"
      "\<forall>y. link_status t y = link_status s y" "length (pset t) = length (pset s)"
      "pset_size t = pset_size s" "vset_size t = vset_size s"
    by (rule receive_hello [OF assms(1,3-7)]) (use assms(2) in \<open>auto simp: has_room_def u_def\<close>)
  define t0 where "t0 = t\<lparr>update_work := False\<rparr>"
  have core: "sys_core t0" using t(2) by (simp add: t0_def queue_upd_irrelevant sys_inv_def)
  have u: "update_ok u" using core t(3) by (simp add: sys_core_def updates_ok_def t0_def update_ok_def)
  obtain t1 nxt where a: "apply_update K u t0 = Some t1" "next_link_state (link_status t0 (pu_node u)) (pu_trans u) = Some nxt"
      "\<forall>x. link_status t1 x = (if x = pu_node u then nxt else link_status t0 x)"
    using apply_update_link_status [OF core u assms(3)] assms(2) t(5-7) by (auto simp: has_room_def t0_def)
  have run: "pset_update_handler K t0 = Some (t1\<lparr>pset_updates := []\<rparr>)"
    using a(1) t(3) by (simp add: pset_update_handler_def t0_def)
  have "sys_inv (t1\<lparr>pset_updates := []\<rparr>)" using update_handler_inv [OF t(2)] run by (simp add: t0_def)
  then show ?thesis
    using t(1,4) run a(2,3) by (simp add: process_def t0_def queue_upd_irrelevant u_def)
qed

section \<open>Exchanging hellos\<close>

text \<open>The pair of link states of two neighbours, and one hello in each direction.\<close>

definition hello_round :: "u32 \<times> u32 \<Rightarrow> (u32 \<times> u32) option" where
  "hello_round xy = (case xy of (x, y) \<Rightarrow> do {
     y \<leftarrow> next_link_state y (hello_column x);
     x \<leftarrow> next_link_state x (hello_column y);
     Some (x, y) })"

lemma link_table:
  "next_link_state PSET_LINKED 0 = Some PSET_LINKED" "next_link_state PSET_LINKED (Suc 0) = Some PSET_LINKED"
  "next_link_state PSET_LINKED 2 = Some PSET_FAILED"
  "next_link_state PSET_PENDING 0 = Some PSET_LINKED" "next_link_state PSET_PENDING (Suc 0) = Some PSET_LINKED"
  "next_link_state PSET_PENDING 2 = Some PSET_PENDING"
  "next_link_state PSET_FAILED 0 = Some PSET_FAILED" "next_link_state PSET_FAILED (Suc 0) = Some PSET_PENDING"
  "next_link_state PSET_FAILED 2 = Some PSET_PENDING"
  "next_link_state PSET_UNKNOWN 0 = Some PSET_FAILED" "next_link_state PSET_UNKNOWN (Suc 0) = Some PSET_LINKED"
  "next_link_state PSET_UNKNOWN 2 = Some PSET_PENDING"
  by (simp_all add: next_link_state_def hello_trans_def idx_def)

lemma hello_column_simps:
  "hello_column PSET_LINKED = 0" "hello_column PSET_PENDING = Suc 0" "hello_column PSET_FAILED = 2" "hello_column PSET_UNKNOWN = 2"
  by (simp_all add: hello_column_def)

lemmas handshake_simps = hello_round_def link_table hello_column_simps

lemma round_linked: "hello_round (PSET_LINKED, PSET_LINKED) = Some (PSET_LINKED, PSET_LINKED)"
  by (simp add: handshake_simps)

lemma round_three:
  assumes "x \<in> {PSET_LINKED, PSET_PENDING, PSET_FAILED, PSET_UNKNOWN}" "y \<in> {PSET_LINKED, PSET_PENDING, PSET_FAILED, PSET_UNKNOWN}"
  shows "times 3 hello_round (x, y) = Some (PSET_LINKED, PSET_LINKED)"
proof -
  have "times 3 hello_round (x, y) = hello_round (x, y) \<bind> hello_round \<bind> hello_round"
    by (simp add: numeral_3_eq_3)
  moreover have "hello_round (x, y) \<bind> hello_round \<bind> hello_round = Some (PSET_LINKED, PSET_LINKED)"
    using assms unfolding insert_iff empty_iff by (elim disjE) (simp_all add: handshake_simps)
  ultimately show ?thesis by simp
qed

section \<open>Properties\<close>

text \<open>
  C3: a hello, end to end. The hello a node \<open>A\<close> broadcasts, received by a node \<open>B\<close> with room for one more
  neighbour and processed by its work item, moves \<open>B\<close>'s record of \<open>A\<close> to the state the transition table
  gives for \<open>A\<close>'s record of \<open>B\<close>, and changes no other link of \<open>B\<close>. Neither side runs into undefined
  behaviour, and one frame per existing interface is sent.
\<close>

theorem hello_exchange:
  fixes sA :: "'a input_globals_scheme" and sB :: "'b input_globals_scheme"
  assumes "sys_inv sA" "sys_inv sB" "has_room sB" "\<forall>i. k_alloc KA i" "\<forall>i. k_alloc KB i"
  shows "\<exists>sA' fs. send_hpkt KA sA = Some (0, sA') \<and> tx (io sA') = tx (io sA) @ fs
     \<and> (\<forall>n. vrr sA = Some n \<longrightarrow> map fr_dev fs = live KA (vn_dev_list n))
     \<and> (\<forall>f skb. f \<in> set fs \<and> skb_data skb = fr_data f \<and> length (skb_src_mac skb) = ETH_ALEN \<longrightarrow>
          (\<exists>sB' nxt. process KB R skb sB = Some sB' \<and> sys_inv sB'
             \<and> next_link_state (link_status sB (ME sA)) (hello_column (link_status sA (ME sB))) = Some nxt
             \<and> (\<forall>x. link_status sB' x = (if x = ME sA then nxt else link_status sB x))))"
proof -
  let ?A = "filter linked_active (pset sA)" and ?B = "filter linked_inactive (pset sA)" and ?C = "filter link_pending (pset sA)"
  have core: "sys_core sA" using assms(1) by (simp add: sys_inv_def)
  obtain n where n: "can_send sA n" "vrr sA = Some n" "vn_id n = ME sA" by (rule sys_core_can_send [OF core])
  have pinv: "pset_inv sA" using core by (simp add: sys_core_def)
  obtain ps where ps: "pstate sA = Some ps" "arrays_ok ps" "mirrors ps (pset sA)"
    using core by (auto simp: sys_core_def core_inv_def pstate_ok_def)
  have len: "length ?A \<le> 20" "length ?B \<le> 20" "length ?C \<le> 20" using mirrors_fits [OF ps(2,3)] by (simp_all add: fits_def)
  define h where "h = msg_header n (vn_id n) 0 VRR_HELLO [] (4 + length ?A + length ?B + length ?C)"
  define ws where "ws = [vn_active n, of_nat (length ?A), of_nat (length ?B), of_nat (length ?C)]
     @ map pl_node ?A @ map pl_node ?B @ map pl_node ?C"
  obtain t where t: "send_hpkt KA sA = Some (0, t)" "message KA (vn_dev_list n) h ws sA t"
    using send_hpkt_run [OF n(1) assms(4) ps] by (auto simp: h_def ws_def)
  obtain fs where fs: "tx (io t) = tx (io sA) @ fs" "\<forall>f \<in> set fs. carries h ws (fr_data f)" "map fr_dev fs = live KA (vn_dev_list n)"
    using message_frames [OF t(2)] assms(4) by metis
  have "\<exists>sB' nxt. process KB R skb sB = Some sB' \<and> sys_inv sB'
       \<and> next_link_state (link_status sB (ME sA)) (hello_column (link_status sA (ME sB))) = Some nxt
       \<and> (\<forall>x. link_status sB' x = (if x = ME sA then nxt else link_status sB x))"
    if f: "f \<in> set fs" "skb_data skb = fr_data f" and m: "length (skb_src_mac skb) = ETH_ALEN" for f skb
  proof -
    have c: "carries h ws (skb_data skb)" using fs(2) f by simp
    have scan: "hello_scan (ME sB) st skb = Some (vn_active n, hello_column (link_status sA (ME sB)))" for st
      using hello_scan_carries [of h "vn_active n" "map pl_node ?A" "map pl_node ?B" "map pl_node ?C" skb "ME sB" st] c len
        hello_lists_column [OF pinv, of "ME sB"] by (simp add: ws_def)
    have "src_id h = ME sA" "pkt_type h = VRR_HELLO" by (simp_all add: h_def n(3))
    then show ?thesis using process_hello [OF assms(2,3,5) m carries_hdr [OF c] _ scan, of R] by simp
  qed
  then show ?thesis using t(1) fs(1,3) n(2) by (intro exI [of _ t] exI [of _ fs] conjI allI impI) (simp, simp, simp, blast)
qed

text \<open>Node 5 records node 7 as linked; node 7, which has never heard of it, answers with failed.\<close>

theorem hello_exchange_witness:
  "\<exists>sA' f. send_hpkt demo_env demo_input = Some (0, sA') \<and> tx (io sA') = [f]
     \<and> (\<exists>sB'. process demo_env (\<lambda>i skb s. (0, s)) \<lparr>skb_id = 0, skb_data = fr_data f, skb_src_mac = [2, 0, 0, 0, 0, 1], skb_dev_addr = []\<rparr>
            demo_peer = Some sB' \<and> link_status sB' 5 = PSET_FAILED)"
proof -
  have st: "link_status demo_peer 5 = PSET_UNKNOWN" "link_status demo_input 7 = PSET_LINKED" "ME demo_input = 5" "ME demo_peer = 7"
    by (simp_all add: demo_peer_def demo_input_defs link_status_def neighbour_def demo_entry_def)
  have room: "has_room demo_peer" by (simp add: has_room_def demo_peer_def demo_input_defs INT_MAX_def)
  have tx0: "tx (io demo_input) = []" by (simp add: demo_input_defs idle_io_def)
  obtain n where n: "vrr demo_input = Some n" "vn_dev_list n = [''wlan0'']" by (simp add: demo_input_defs)
  let ?R = "\<lambda>i skb s. (0 :: int, s :: input_globals)"
  have al: "\<forall>i. k_alloc demo_env i" by simp
  obtain sA' fs where fs: "send_hpkt demo_env demo_input = Some (0, sA')" "tx (io sA') = tx (io demo_input) @ fs"
      "\<forall>n. vrr demo_input = Some n \<longrightarrow> map fr_dev fs = live demo_env (vn_dev_list n)"
    and rcv: "\<forall>f skb. f \<in> set fs \<and> skb_data skb = fr_data f \<and> length (skb_src_mac skb) = ETH_ALEN \<longrightarrow>
      (\<exists>sB' nxt. process demo_env ?R skb demo_peer = Some sB' \<and> sys_inv sB'
        \<and> next_link_state (link_status demo_peer (ME demo_input)) (hello_column (link_status demo_input (ME demo_peer))) = Some nxt
        \<and> (\<forall>x. link_status sB' x = (if x = ME demo_input then nxt else link_status demo_peer x)))"
    using hello_exchange [OF demo_input_ok demo_peer_ok room al al, of ?R] by blast
  have "map fr_dev fs = [''wlan0'']" using fs(3) n by (simp add: live_def)
  then obtain f where f: "fs = [f]" by auto
  show ?thesis
    using fs(1,2) tx0 rcv [rule_format, of f "\<lparr>skb_id = 0, skb_data = fr_data f, skb_src_mac = [2, 0, 0, 0, 0, 1], skb_dev_addr = []\<rparr>"]
    unfolding st by (auto simp: f link_table hello_column_simps)
qed



end
