(* ===== verification/Safety.thy ===== *)
theory Safety
  imports Handshake
begin

text \<open>
  Which entry points always return, and what they do with input they refuse: the periodic work, hello
  packets of any content, unknown packet types.
\<close>

section \<open>The size of a hello\<close>

lemma carries_length: "carries h ws bs \<Longrightarrow> length bs = sizeof_vrr_header + 4 * length ws"
  by (auto simp: carries_def length_header_bytes)

lemma send_hpkt_frames:
  assumes "sys_core s" "\<forall>i. k_alloc K i"
  obtains n t h ws fs where "vrr s = Some n" "send_hpkt K s = Some (0, t)" "io_only s t" "tx (io t) = tx (io s) @ fs"
    "map fr_dev fs = live K (vn_dev_list n)" "\<forall>f \<in> set fs. carries h ws (fr_data f) \<and> fr_dest f = replicate ETH_ALEN (- 1)"
    "length ws \<le> 64" "data_len h = of_nat (4 * length ws)" "pkt_type h = VRR_HELLO" "src_id h = ME s"
proof -
  obtain n where n: "can_send s n" "vrr s = Some n" "vn_id n = ME s" by (rule sys_core_can_send [OF assms(1)])
  obtain ps where ps: "pstate s = Some ps" "arrays_ok ps" "mirrors ps (pset s)"
    using assms(1) by (auto simp: sys_core_def core_inv_def pstate_ok_def)
  let ?A = "filter linked_active (pset s)" and ?B = "filter linked_inactive (pset s)" and ?C = "filter link_pending (pset s)"
  define ws where "ws = [vn_active n, of_nat (length ?A), of_nat (length ?B), of_nat (length ?C)]
          @ map pl_node ?A @ map pl_node ?B @ map pl_node ?C"
  define h where "h = msg_header n (vn_id n) 0 VRR_HELLO [] (length ws)"
  have lw: "length ws = 4 + length ?A + length ?B + length ?C" by (simp add: ws_def)
  have len: "length ws \<le> 64" using mirrors_fits [OF ps(2,3)] by (simp add: fits_def lw)
  obtain t where t: "send_hpkt K s = Some (0, t)" "io_only s t" "message K (vn_dev_list n) h ws s t"
    using send_hpkt_run [OF n(1) assms(2) ps] unfolding h_def lw by (auto simp: ws_def)
  obtain fs where fs: "tx (io t) = tx (io s) @ fs" "\<forall>f \<in> set fs. carries h ws (fr_data f) \<and> fr_dest f = dest_mac h"
      "map fr_dev fs = live K (vn_dev_list n)"
    using message_frames [OF t(3)] assms(2) by metis
  show ?thesis
    by (rule that [where h = h, OF n(2) t(1,2) fs(1,3) _ len]) (use fs(2) in \<open>simp_all add: h_def n(3)\<close>)
qed

section \<open>The periodic work\<close>

lemma active_timeout_total:
  assumes "sys_core s"
  shows "\<exists>t. active_timeout s = Some t"
proof -
  have "core_inv s" using assms by (simp add: sys_core_def)
  then show ?thesis by (rule active_timeout_inv) blast
qed

lemma workqueue_handler_total:
  assumes "sys_core s" "\<forall>i. k_alloc K i"
  shows "\<exists>t n fs. vrr_workqueue_handler K s = Some t \<and> vrr s = Some n \<and> tx (io t) = tx (io s) @ fs
     \<and> map fr_dev fs = live K (vn_dev_list n) \<and> pset t = survivors (pset s)
     \<and> (\<forall>f \<in> set fs. sizeof_vrr_header \<le> length (fr_data f) \<and> length (fr_data f) \<le> 284)"
proof -
  have inv: "pset_inv s" "core_inv s" using assms(1) by (simp_all add: sys_core_def)
  obtain s1 ps where 1: "detect_failures s = Some s1" "s1 = s\<lparr>pset := survivors (pset s), pstate := Some ps\<rparr>"
    by (rule detect_failures_inv [OF inv]) blast
  have c1: "sys_core s1" using keeps1D [OF detect_failures_keeps assms(1) 1(1)] by simp
  obtain s2 where 2: "active_timeout s1 = Some s2" using active_timeout_total [OF c1] by blast
  have c2: "sys_core s2" using keeps1D [OF active_timeout_keeps c1 2] by simp
  obtain m where m: "vrr s1 = Some m" using 2 by (auto simp: active_timeout_def run_simps)
  obtain m' where m': "s2 = s1\<lparr>vrr := Some m'\<rparr>" "vn_dev_list m' = vn_dev_list m"
    using 2 m that [of m] by (cases "vn_active m = 0") (auto simp: active_timeout_def Let_def)
  obtain n t h ws fs where t: "vrr s2 = Some n" "send_hpkt K s2 = Some (0, t)" "io_only s2 t" "tx (io t) = tx (io s2) @ fs"
    "map fr_dev fs = live K (vn_dev_list n)" "\<forall>f \<in> set fs. carries h ws (fr_data f)" "length ws \<le> 64"
    by (rule send_hpkt_frames [OF c2 assms(2)]) blast
  have "vrr_workqueue_handler K s = Some t" using 1(1) 2 t(2) by (simp add: vrr_workqueue_handler_def)
  moreover have "vrr s = Some m" "tx (io s2) = tx (io s)" "n = m'" using m m' t(1) 1(2) by simp_all
  moreover have "pset t = survivors (pset s)" using t(3) m'(1) 1(2) by (auto elim!: io_onlyE)
  moreover have "\<forall>f \<in> set fs. sizeof_vrr_header \<le> length (fr_data f) \<and> length (fr_data f) \<le> 284"
    using t(6,7) carries_length by (fastforce simp: sizeof_vrr_header_def)
  ultimately show ?thesis using t(4,5) m'(2) by auto
qed

section \<open>The update queue\<close>

lemma record_link_pset:
  assumes "record_link K u cur nxt act s = Some t" "sys_core s"
  shows "length (pset t) \<le> Suc (length (pset s)) \<and> pset_size t \<le> Suc (pset_size s)"
proof -
  have u: "\<not> held s vrr_pset_lock" using assms(2) by (simp add: sys_core_def net_def)
  have psu: "pset_state_update a = Some b \<Longrightarrow> pset b = pset a \<and> pset_size b = pset_size a" for a b :: "'a input_globals_scheme"
    by (auto simp: pset_state_update_def run_simps)
  have add: "pset_add K (pu_node u) (pu_mac u) nxt (pu_active u) s = Some (r, s1) \<Longrightarrow>
      length (pset s1) \<le> Suc (length (pset s)) \<and> pset_size s1 \<le> Suc (pset_size s)" for r s1
    using u pset_add_known [OF u] pset_add_new [OF u] by (cases "neighbour s (pu_node u) = None") (auto split: if_splits)
  show ?thesis
    using assms(1) u by (auto simp: record_link_def run_simps pset_update_status_run split: if_splits dest!: psu add)
qed

lemma apply_updates_total:
  assumes "sys_core s" "\<forall>u \<in> set us. update_ok u" "\<forall>i. k_alloc K i" "4 * (vset_size s + 2) \<le> INT_MAX"
    and "length (pset s) + length us \<le> VRR_PSET_SIZE" "pset_size s + length us \<le> INT_MAX"
  shows "\<exists>t. apply_updates K us s = Some t"
  using assms(1,2,4-6)
proof (induction us arbitrary: s)
  case (Cons u us)
  have u: "update_ok u" using Cons.prems(2) by simp
  obtain nxt where nxt: "nxt \<in> {PSET_LINKED, PSET_PENDING, PSET_FAILED}"
    and eq: "apply_update K u s = do {
       s \<leftarrow> record_link K u (link_status s (pu_node u)) nxt (case neighbour s (pu_node u) of None \<Rightarrow> 0 | Some e \<Rightarrow> pl_active e) s;
       ask_proxy K u nxt s }"
    by (rule apply_update_run [OF Cons.prems(1) u])
  obtain s1 where 1: "record_link K u (link_status s (pu_node u)) nxt
         (case neighbour s (pu_node u) of None \<Rightarrow> 0 | Some e \<Rightarrow> pl_active e) s = Some s1" "vset_size s1 = vset_size s"
    using record_link_run [OF Cons.prems(1) u nxt assms(3)] Cons.prems(4,5) by auto
  have p1: "length (pset s1) \<le> Suc (length (pset s)) \<and> pset_size s1 \<le> Suc (pset_size s)"
    by (rule record_link_pset [OF 1(1) Cons.prems(1)])
  have "sys_core s1" using keeps1D [OF record_link_keeps [OF u nxt] Cons.prems(1) 1(1)] by simp
  then obtain s2 where 2: "ask_proxy K u nxt s1 = Some s2" "io_only s1 s2"
    using ask_proxy_run [of s1 K u nxt] assms(3) Cons.prems(3) 1(2) by auto
  have "sys_core s2" using sys_core_io [OF 2(2)] \<open>sys_core s1\<close> by simp
  moreover have "pset s2 = pset s1" "pset_size s2 = pset_size s1" "vset_size s2 = vset_size s1"
    using 2(2) by (auto elim!: io_onlyE)
  ultimately have "\<exists>t. apply_updates K us s2 = Some t"
    using Cons.IH [of s2] Cons.prems(2-5) 1(2) p1 by auto
  then show ?case using eq 1(1) 2(1) by simp
qed simp

section \<open>Hello packets of any content\<close>

lemma rcv_hello_outcome:
  assumes "vrr s = Some n"
  obtains t where "vrr_rcv_hello K skb vh s = Some (-1, t)" "io_only s t" "skb_users (io t) = skb_users (io s)"
  | t u where "vrr_rcv_hello K skb vh s = Some (0, t)" "skb_users (io t) = skb_users (io s)"
      "pset_updates t = pset_updates s @ [u]" "pu_node u = src_id vh" "pu_mac u = skb_src_mac skb"
proof (cases "hello_scan (vn_id n) (k_junk K (clock (io s))) skb")
  case None
  then show ?thesis using that(1) [of "tick s"] assms by (simp add: vrr_rcv_hello_def vrr_get_node_def uninit_def)
next
  case (Some p)
  obtain a tr where p: "p = (a, tr)" by (cases p)
  show ?thesis
  proof (cases "k_alloc K (Suc (clock (io s)))")
    case True
    then show ?thesis
      using assms Some p
      by (intro that(2) [of "(tick (tick s))\<lparr>pset_updates := pset_updates s @ [\<lparr>pu_node = src_id vh, pu_mac = skb_src_mac skb,
            pu_trans = tr, pu_active = a\<rparr>], update_work := True\<rparr>"
            "\<lparr>pu_node = src_id vh, pu_mac = skb_src_mac skb, pu_trans = tr, pu_active = a\<rparr>"])
        (simp_all add: vrr_rcv_hello_def vrr_get_node_def uninit_def kmalloc_def tick_def)
  next
    case False
    then show ?thesis
      using that(1) [of "tick (tick s)"] assms Some p
      by (auto simp: vrr_rcv_hello_def vrr_get_node_def uninit_def kmalloc_def)
  qed
qed

lemma hello_processed:
  assumes "sys_inv s" "vrr_hdr skb = Some h" "pkt_type h = VRR_HELLO" "length (skb_src_mac skb) = ETH_ALEN"
  shows "\<exists>r t. vrr_rcv K R skb s = Some (r, t) \<and> sys_inv t \<and>
     (r = NET_RX_DROP \<and> pset_updates t = pset_updates s
        \<and> skb_users (io t) = (skb_users (io s))(skb_id skb := skb_users (io s) (skb_id skb) - 1)
      \<or> r = NET_RX_SUCCESS \<and> skb_users (io t) = skb_users (io s)
        \<and> (\<exists>u. pset_updates t = pset_updates s @ [u] \<and> pu_node u = src_id h \<and> pu_mac u = skb_src_mac skb))"
proof -
  have core: "sys_core s" using assms(1) by (simp add: sys_inv_def)
  obtain s1 x where 1: "reset_active_timeout s \<bind> pset_reset_fail_count (src_id h) = Some (x, s1)"
      "sys_core s1" "same_queue s s1" "io s1 = io s"
    by (rule reset_counters_run [OF core, of "src_id h"]) blast
  have inv1: "sys_inv s1" using sys_inv_same_queue assms(1) 1(2,3) by blast
  obtain n where n: "vrr s1 = Some n" using 1(2) by (auto elim: sys_core_can_send)
  have run: "vrr_rcv K R skb s = do {
      (err, s) \<leftarrow> vrr_rcv_hello K skb h s1;
      if err \<noteq> 0 then Some (NET_RX_DROP, kfree_skb (skb_id skb) s) else Some (NET_RX_SUCCESS, s) }"
    using 1(1) assms(2,3) by (auto simp: vrr_rcv_def vrr_rcvfunc_def run_simps word_le_nat_alt)
  have q: "pset_updates s1 = pset_updates s" using 1(3) by (simp add: same_queue_def)
  show ?thesis
  proof (rule rcv_hello_outcome [OF n, of K skb h])
    fix t assume t: "vrr_rcv_hello K skb h s1 = Some (-1, t)" "io_only s1 t" "skb_users (io t) = skb_users (io s1)"
    have "sys_inv (kfree_skb (skb_id skb) t)"
      using rcv_hello_inv [OF inv1 t(1) assms(4)] sys_inv_io [OF io_only_services(1)] by blast
    moreover have "pset_updates t = pset_updates s1" using t(2) by (auto elim: io_onlyE)
    ultimately show ?thesis
      using t(1,3) 1(4) q run by (intro exI [of _ NET_RX_DROP] exI [of _ "kfree_skb (skb_id skb) t"]) (simp add: kfree_skb_def)
  next
    fix t u assume t: "vrr_rcv_hello K skb h s1 = Some (0, t)" "skb_users (io t) = skb_users (io s1)"
      "pset_updates t = pset_updates s1 @ [u]" "pu_node u = src_id h" "pu_mac u = skb_src_mac skb"
    then show ?thesis
      using rcv_hello_inv [OF inv1 t(1) assms(4)] 1(4) q run by (intro exI [of _ NET_RX_SUCCESS] exI [of _ t]) auto
  qed
qed

section \<open>What a received packet does to the physical set\<close>

text \<open>No handler touches the list of neighbours: only the dispatcher resets the failure count of the sender.\<close>

definition same_pset :: "'z input_globals_scheme \<Rightarrow> 'z input_globals_scheme \<Rightarrow> bool" where
  "same_pset s t \<longleftrightarrow> pset t = pset s"

interpretation psf: state_frame sys_core same_pset
  by unfold_locales (auto simp: same_pset_def)

lemma psf_keeps_net: "keeps net routing_only f \<Longrightarrow> keeps sys_core same_pset f"
  unfolding keeps_def same_pset_def
proof (intro allI impI)
  fix s r t assume f: "\<forall>s r t. net s \<longrightarrow> f s = Some (r, t) \<longrightarrow> net t \<and> routing_only s t"
    and inv: "sys_core (s :: 'a input_globals_scheme)" and run: "f s = Some (r, t)"
  have n: "net s" using inv by (simp add: sys_core_def)
  have t: "net t" "routing_only s t" using f [rule_format, OF n run] by simp_all
  have "pset t = pset s" using t(2) by (auto elim!: routing_onlyE)
  then show "sys_core t \<and> pset t = pset s" using sys_core_routing [OF t(2,1) inv] by simp
qed

lemma psf_pair_io:
  assumes "\<And>s. io_only s (snd (f s))" "sys_core s"
  shows "sys_core (snd (f s)) \<and> same_pset s (snd (f s))"
proof -
  obtain i where "snd (f s) = s\<lparr>io := i\<rparr>" by (rule io_onlyE [OF assms(1)])
  then show ?thesis using sys_core_io [OF assms(1,2)] by (simp add: same_pset_def)
qed

lemma psf_activate:
  "keeps sys_core same_pset (\<lambda>s. vrr_get_node s \<bind> (\<lambda>me. Some (0 :: int, s\<lparr>vrr := Some (me\<lparr>vn_active := 1\<rparr>)\<rparr>)))"
  using activate_keeps unfolding keeps_def same_pset_def by (auto simp: run_simps)

lemmas psf_rules = psf.bind psf.bind1 psf.let_bind psf.return keeps_if keeps_option keeps_prod keeps_prod_fun
  keeps_let keeps_read psf.seq psf.seq1 keeps1_if keeps1_option keeps1_prod keeps1_let keeps1_read

lemma psf_setup:
  assumes "rb_keeps_order K" "sort_by_address K"
  shows "keeps sys_core same_pset (vrr_rcv_setup K skb vh)"
  unfolding vrr_rcv_setup_def
  by (rule psf_activate rt_add_route_keeps [OF assms(1), THEN psf_keeps_net] vrr_add_keeps [OF assms(2), THEN psf_keeps_net]
      op_keeps(1-15) [THEN psf_keeps_net] psf_rules psf_pair_io uninit_io read_vset_io | assumption)+

lemma sock_only_pset: "sock_only s t \<Longrightarrow> same_pset s t"
  by (auto simp: same_pset_def elim: sock_onlyE)

lemma psf_find_sock: "keeps sys_core same_pset (vrr_find_sock a)"
  unfolding keeps_def
proof (intro allI impI)
  fix s r t assume inv: "sys_core (s :: 'a input_globals_scheme)" and run: "vrr_find_sock a s = Some (r, t)"
  have st: "\<not> held s vrr_socks_lock" "socks_inv s" using inv by (simp_all add: sys_core_def net_def)
  have "sock_only s t" using run vrr_find_sock_run [OF st, of a] by (auto split: option.splits)
  then show "sys_core t \<and> same_pset s t" using keepsD [OF find_sock_keeps inv run] sock_only_pset by simp
qed

lemma psf_deliver:
  assumes "rx_lawful R"
  shows "keeps sys_core same_pset (\<lambda>s. let (ret, s) = R i skb s in Some (ret, sock_put i s))"
  unfolding keeps_def
proof (intro allI impI)
  fix s r t assume inv: "sys_core (s :: 'a input_globals_scheme)"
    and run: "(let (ret, s) = R i skb s in Some (ret, sock_put i s)) = Some (r, t)"
  have t: "t = sock_put i (snd (R i skb s))" using run by (auto simp: split_beta)
  have "sock_only s t" unfolding t
    by (rule sock_only_trans [of _ "snd (R i skb s)"]) (use assms in \<open>simp_all add: rx_lawful_def\<close>)
  then show "sys_core t \<and> same_pset s t" using keepsD [OF deliver_keeps [OF assms] inv run] sock_only_pset by simp
qed

lemma psf_data:
  assumes "rx_lawful R"
  shows "keeps sys_core same_pset (vrr_rcv_data K R skb vh)"
  unfolding vrr_rcv_data_def
  by (rule psf_find_sock psf_deliver [OF assms] psf_keeps_net [OF send_keeps(5)] psf_rules)+

lemma rcvfunc_same_pset:
  assumes "rb_keeps_order K" "sort_by_address K" "rx_lawful R" "sys_core s" "vrr_rcvfunc K R ty skb vh s = Some (r, t)"
  shows "pset t = pset s"
proof -
  have hello: "vrr_rcv_hello K skb vh s = Some (r, t) \<Longrightarrow> pset t = pset s"
    by (erule rcv_hello_effect) (auto elim: io_onlyE)
  note h = psf_data [OF assms(3)] psf_setup [OF assms(1,2)] psf_keeps_net [OF rcv_setup_req_keeps [OF assms(1,2)]]
    psf_keeps_net [OF rcv_setup_fail_keeps [OF assms(2)]] psf_keeps_net [OF rcv_teardown_keeps [OF assms(2)]]
  show ?thesis
    using assms(5) unfolding vrr_rcvfunc_def
    by (auto split: if_splits dest: hello h [THEN keepsD, OF assms(4)] simp: same_pset_def)
qed

lemma vrr_rcv_neighbours:
  assumes "rb_keeps_order K" "sort_by_address K" "rx_lawful R" "sys_core s" "vrr_hdr skb = Some h" "pkt_type h < VRR_NPTYPES" "vrr_rcv K R skb s = Some (r, t)"
  shows "pset t = upd_first (\<lambda>e. pl_node e = src_id h) (\<lambda>e. e\<lparr>fail_count := 0\<rparr>) (pset s)"
proof -
  obtain s1 x s2 err s3 where 1: "reset_active_timeout s = Some s1" and 2: "pset_reset_fail_count (src_id h) s1 = Some (x, s2)"
      and 3: "vrr_rcvfunc K R (pkt_type h) skb h s2 = Some (err, s3)" and 4: "t = s3 \<or> t = kfree_skb (skb_id skb) s3"
    using assms(5-7) by (auto simp: vrr_rcv_def run_simps split: if_splits)
  have c1: "sys_core s1" using keeps1D [OF reset_active_timeout_keeps assms(4) 1] by simp
  have c2: "sys_core s2" using keepsD [OF reset_fail_count_keeps c1 2] by simp
  have p1: "pset s1 = pset s" using 1 by (auto simp: reset_active_timeout_def run_simps)
  have "\<not> held s1 vrr_pset_lock" using c1 by (simp add: sys_core_def net_def)
  then have "pset s2 = upd_first (\<lambda>e. pl_node e = src_id h) (\<lambda>e. e\<lparr>fail_count := 0\<rparr>) (pset s)"
    using 2 by (auto simp: pset_reset_fail_count_run p1)
  then show ?thesis using rcvfunc_same_pset [OF assms(1-3) c2 3] 4 by (auto simp: kfree_skb_def)
qed

section \<open>Activation\<close>

lemma times_active_timeout:
  assumes "vrr s = Some n" "vn_active n = 0" "vn_timeout n = 0"
  shows "\<exists>s' m. times k active_timeout s = Some s' \<and> s' = s\<lparr>vrr := Some m\<rparr> \<and> vn_id m = vn_id n \<and> vn_dev_list m = vn_dev_list n
     \<and> (if k < 8 then vn_active m = 0 \<and> vn_timeout m = int k else vn_active m = 1)"
proof (induction k)
  case 0
  then show ?case using assms by (intro exI [of _ s] exI [of _ n]) simp
next
  case (Suc k)
  then obtain s1 m where 1: "times k active_timeout s = Some s1" "s1 = s\<lparr>vrr := Some m\<rparr>" "vn_id m = vn_id n"
      "vn_dev_list m = vn_dev_list n" and a: "if k < 8 then vn_active m = 0 \<and> vn_timeout m = int k else vn_active m = 1" by blast
  show ?case
  proof (cases "k < 8")
    case True
    define m' where "m' = (let n = m\<lparr>vn_timeout := vn_timeout m + 1\<rparr> in
      if vn_timeout n = VRR_ACTIVE_TIMEOUT then n\<lparr>vn_active := 1\<rparr> else n)"
    have "active_timeout s1 = Some (s\<lparr>vrr := Some m'\<rparr>)" using True a 1(2) by (simp add: active_timeout_def m'_def Let_def)
    then show ?thesis
      using True a 1 by (intro exI [of _ "s\<lparr>vrr := Some m'\<rparr>"] exI [of _ m']) (auto simp: m'_def Let_def)
  next
    case False
    then have "active_timeout s1 = Some s1" using a 1(2) by (simp add: active_timeout_def)
    then show ?thesis using False a 1 by (intro exI [of _ s1] exI [of _ m]) auto
  qed
qed


lemma parse_header_None_iff: "parse_header bs = None \<longleftrightarrow> length bs < sizeof_vrr_header"
proof
  assume "parse_header bs = None"
  show "length bs < sizeof_vrr_header"
  proof (rule ccontr)
    assume "\<not> length bs < sizeof_vrr_header"
    then obtain a xs where "bs = a @ xs" "length a = 28"
      by (metis append_take_drop_id length_take min.absorb2 not_less sizeof_vrr_header_def)
    then show False using \<open>parse_header bs = None\<close> by (auto simp: numeral_eq_Suc length_Suc_conv)
  qed
next
  assume "length bs < sizeof_vrr_header"
  then show "parse_header bs = None" by (cases bs rule: parse_header.cases) (simp_all add: sizeof_vrr_header_def)
qed

lemma link_table_cell: "next_link_state cur tr = (if unat cur < 4 \<and> tr < 3 then Some (hello_trans ! unat cur ! tr) else None)"
proof -
  have "\<forall>row \<in> set hello_trans. length row = 3" "length hello_trans = 4" by (simp_all add: hello_trans_def)
  then show ?thesis by (auto simp: next_link_state_def idx_def)
qed

section \<open>Properties\<close>




text \<open>The hello of node 8 that carries nothing but a header: what follows is read from the stack.\<close>

definition demo_skb :: "vrr_header \<Rightarrow> u32 list \<Rightarrow> sk_buff" where
  "demo_skb h ws = \<lparr>skb_id = 0, skb_data = header_bytes (\<lambda>i. 0) h @ be32s ws, skb_src_mac = [2, 0, 0, 0, 0, 8], skb_dev_addr = [2, 0, 0, 0, 0, 1]\<rparr>"

definition demo_header :: "u8 \<Rightarrow> u32 \<Rightarrow> u32 \<Rightarrow> vrr_header" where
  "demo_header ty src dst = \<lparr>vrr_version = 1, pkt_type = ty, protocol = PF_VRR, data_len = 0, free_byte = 0, h_csum = 0,
     src_id = src, dest_id = dst, dest_mac = [2, 0, 0, 0, 0, 1]\<rparr>"

lemma demo_skb_carries: "carries (demo_header ty src dst) ws (skb_data (demo_skb (demo_header ty src dst) ws))"
  by (auto simp: carries_def demo_header_def demo_skb_def)

lemma demo_skb_sel [simp]:
  "vrr_hdr (demo_skb (demo_header ty src dst) ws) = Some (demo_header ty src dst)"
  "length (skb_src_mac (demo_skb h ws)) = ETH_ALEN" "skb_id (demo_skb h ws) = 0"
  "skb_src_mac (demo_skb h ws) = [2, 0, 0, 0, 0, 8]" "skb_dev_addr (demo_skb h ws) = [2, 0, 0, 0, 0, 1]"
  "pkt_type (demo_header ty src dst) = ty" "src_id (demo_header ty src dst) = src" "dest_id (demo_header ty src dst) = dst"
  using carries_hdr [OF demo_skb_carries] by (simp_all add: demo_skb_def demo_header_def)


text \<open>
  C10: a neighbour that is heard stays. A packet of any known type and content from a neighbour, if it is
  processed at all, resets that neighbour's failure count and leaves every other entry of the physical
  set as it was; for three further periods of failure detection its link status does not change.
\<close>

theorem heard_neighbour_stays:
  assumes "rb_keeps_order K" "sort_by_address K" "rx_lawful R" "sys_inv s" "length (skb_src_mac skb) = ETH_ALEN"
    and "vrr_hdr skb = Some h" "pkt_type h < VRR_NPTYPES" "vrr_rcv K R skb s = Some (r, t)"
    and "neighbour s (src_id h) = Some e" "n < 4"
  shows "pset t = upd_first (\<lambda>e. pl_node e = src_id h) (\<lambda>e. e\<lparr>fail_count := 0\<rparr>) (pset s)
     \<and> (\<exists>t'. times n detect_failures t = Some t' \<and> link_status t' (src_id h) = pl_status e)"
proof -
  have core: "sys_core s" using assms(4) by (simp add: sys_inv_def)
  have p: "pset t = upd_first (\<lambda>e. pl_node e = src_id h) (\<lambda>e. e\<lparr>fail_count := 0\<rparr>) (pset s)"
    by (rule vrr_rcv_neighbours [OF assms(1-3) core assms(6-8)])
  have "sys_inv t" by (rule vrr_rcv_inv [OF assms(1-3,5,4,8)])
  then have inv: "pset_inv t" "core_inv t" by (simp_all add: sys_inv_def sys_core_def)
  have nb: "neighbour t (src_id h) = Some (e\<lparr>fail_count := 0\<rparr>)"
    using assms(9) neighbour_update [where f = "\<lambda>tmp. tmp\<lparr>fail_count := 0\<rparr>" and s = s and node = "src_id h" and x = "src_id h"]
    by (simp add: neighbour_def p)
  obtain t' e' where "times n detect_failures t = Some t'" "neighbour t' (src_id h) = Some e'" "pl_status e' = pl_status e"
    using times_age [OF inv nb, of n] assms(10) by auto
  then show ?thesis using p by (simp add: link_status_def)
qed

theorem heard_neighbour_stays_witness:
  "\<exists>r t t'. vrr_rcv demo_env (\<lambda>i skb s. (0, s)) (demo_skb (demo_header VRR_HELLO 8 0) []) demo_input = Some (r, t)
     \<and> times 3 detect_failures t = Some t' \<and> link_status t' 8 = PSET_PENDING"
proof -
  let ?R = "\<lambda>i skb (s :: input_globals). (0 :: int, s)" and ?p = "demo_skb (demo_header VRR_HELLO 8 0) []"
  have R: "rx_lawful ?R" by (simp add: rx_lawful_def)
  have nb: "neighbour demo_input 8 = Some (demo_entry 8 PSET_PENDING)"
    by (simp add: demo_input_defs neighbour_def demo_entry_def)
  obtain r t where run: "vrr_rcv demo_env ?R ?p demo_input = Some (r, t)"
    using hello_processed [OF demo_input_ok, of ?p _ demo_env ?R] by auto
  show ?thesis
    using heard_neighbour_stays [OF demo_env_laws R demo_input_ok _ _ _ run, of _ "demo_entry 8 PSET_PENDING" 3] nb run
    by (auto simp: demo_entry_def)
qed

text \<open>
  C14: the deferred work applies every update. With memory, and room in the copy of the physical set
  for as many new neighbours as updates are queued, the work item completes for any queue a running
  node can have, leaves it empty and keeps the invariant.
\<close>

theorem update_work_completes:
  assumes "sys_inv s" "\<forall>i. k_alloc K i" "4 * (vset_size s + 2) \<le> INT_MAX"
    and "length (pset s) + length (pset_updates s) \<le> VRR_PSET_SIZE" "pset_size s + length (pset_updates s) \<le> INT_MAX"
  shows "\<exists>t. pset_update_handler K (s\<lparr>update_work := False\<rparr>) = Some t \<and> sys_inv t \<and> pset_updates t = []"
proof -
  define s0 where "s0 = s\<lparr>update_work := False\<rparr>"
  have core: "sys_core s0" using assms(1) by (simp add: s0_def queue_upd_irrelevant sys_inv_def)
  then have "\<forall>u \<in> set (pset_updates s0). update_ok u" by (simp add: sys_core_def updates_ok_def update_ok_def)
  then obtain t where "apply_updates K (pset_updates s0) s0 = Some t"
    using apply_updates_total [OF core _ assms(2), of "pset_updates s0"] assms(3-5) by (auto simp: s0_def)
  then have "pset_update_handler K s0 = Some (t\<lparr>pset_updates := []\<rparr>)" by (simp add: pset_update_handler_def)
  then show ?thesis using update_handler_inv [OF assms(1)] by (auto simp: s0_def)
qed

theorem update_work_completes_witness:
  "\<exists>r t t'. vrr_rcv demo_env (\<lambda>i skb s. (0, s)) (demo_skb (demo_header VRR_HELLO 9 0) [1, 0, 0, 0]) demo_input = Some (r, t)
     \<and> pset_updates t \<noteq> [] \<and> pset_update_handler demo_env (t\<lparr>update_work := False\<rparr>) = Some t' \<and> pset_updates t' = []"
proof -
  let ?p = "demo_skb (demo_header VRR_HELLO 9 0) [1, 0, 0, 0]" and ?R = "\<lambda>i skb (s :: input_globals). (0 :: int, s)"
  have al: "\<forall>i. k_alloc demo_env i" by simp
  have c: "carries (demo_header VRR_HELLO 9 0) ([1, of_nat (length []), of_nat (length []), of_nat (length [])] @ [] @ [] @ []) (skb_data ?p)"
    using demo_skb_carries by simp
  have sc: "hello_scan x st ?p = Some (1, TRANS_MISSING)" for x st
    using hello_scan_carries [OF c] by (simp add: scan_def)
  obtain t where t: "vrr_rcv demo_env ?R ?p demo_input = Some (NET_RX_SUCCESS, t)" "sys_inv t" "length (pset_updates t) = 1"
      "length (pset t) = 2" "pset_size t = 2" "vset_size t = 0"
    by (rule receive_hello [where R = ?R and h = "demo_header VRR_HELLO 9 0", OF demo_input_ok al _ _ _ sc])
      (simp_all add: demo_input_defs)
  then show ?thesis
    using update_work_completes [OF t(2) al] by (auto simp: INT_MAX_def)
qed

text \<open>
  C34: a quiet node activates itself. An inactive node whose timeout was just reset stays inactive for
  seven periods without a packet and becomes active in the eighth; its identity and its interfaces do not change.
\<close>

theorem quiet_node_activates:
  assumes "vrr s = Some n" "vn_active n = 0" "vn_timeout n = 0"
  shows "\<exists>m. times k active_timeout s = Some (s\<lparr>vrr := Some m\<rparr>) \<and> vn_active m = (if k < 8 then 0 else 1)
     \<and> vn_id m = vn_id n \<and> vn_dev_list m = vn_dev_list n"
  using times_active_timeout [OF assms, of k] by (cases "k < 8") auto

theorem quiet_node_activates_witness:
  "\<exists>m. times 8 active_timeout demo_input = Some (demo_input\<lparr>vrr := Some m\<rparr>) \<and> vn_active m = 1"
  using quiet_node_activates [of demo_input _ 8] by (fastforce simp: demo_input_defs)



text \<open>
  C38: the transition table is closed. A link state and a column select a cell exactly when they are one
  of the four states and one of the three columns; the cell is one of the three states a neighbour can
  be recorded in, never unknown. Every state and column a running node can have selects a cell.
\<close>

theorem link_table_closed:
  "(next_link_state cur tr \<noteq> None) = (unat cur < 4 \<and> tr < 3)
   \<and> (\<forall>nxt. next_link_state cur tr = Some nxt \<longrightarrow> nxt \<in> {PSET_LINKED, PSET_PENDING, PSET_FAILED})
   \<and> (\<forall>s u. sys_inv s \<and> u \<in> set (pset_updates s) \<longrightarrow> next_link_state (link_status s (pu_node u)) (pu_trans u) \<noteq> None)"
proof (intro conjI allI impI)
  show "(next_link_state cur tr \<noteq> None) = (unat cur < 4 \<and> tr < 3)" by (simp add: link_table_cell)
  show "nxt \<in> {PSET_LINKED, PSET_PENDING, PSET_FAILED}" if n: "next_link_state cur tr = Some nxt" for nxt
  proof -
    have "unat cur = 0 \<or> unat cur = 1 \<or> unat cur = 2 \<or> unat cur = 3" "tr = 0 \<or> tr = 1 \<or> tr = 2"
      using n by (auto simp: link_table_cell split: if_splits)
    then show ?thesis using n unfolding link_table_cell by (elim disjE) (simp_all add: hello_trans_def)
  qed
  show "next_link_state (link_status s (pu_node u)) (pu_trans u) \<noteq> None"
    if "sys_inv s \<and> u \<in> set (pset_updates s)" for s :: "'a input_globals_scheme" and u
    using that link_status_cases [of s "pu_node u"] by (auto simp: sys_inv_def sys_core_def updates_ok_def link_table_cell)
qed

theorem link_table_closed_witness:
  "next_link_state PSET_UNKNOWN TRANS_PENDING = Some PSET_LINKED \<and> PSET_LINKED \<in> {PSET_LINKED, PSET_PENDING, PSET_FAILED}"
  using link_table_closed [of PSET_UNKNOWN TRANS_PENDING] by (simp add: link_table)

end
