(* ===== verification/Data_Path.thy ===== *)
theory Data_Path
  imports Safety
begin

text \<open>
  The way of user data: \<open>vrr_sendmsg\<close>, \<open>vrr_forward\<close> on the way, delivery to a socket and \<open>vrr_recvmsg\<close>,
  with the accounting of buffers and device references. The receive loop is compared with a
  specification that looks at the queue only.
\<close>

section \<open>Devices and clones\<close>

text \<open>The existing devices in the order \<open>vrr_output\<close> tries them, each with whether its clone was allocated.\<close>

fun attempts :: "kenv \<Rightarrow> nat \<Rightarrow> string list \<Rightarrow> (string \<times> bool) list" where
  "attempts K c [] = []"
| "attempts K c (d # ds) =
     (if k_dev K d = None then attempts K c ds else (d, k_alloc K c) # attempts K (Suc c) ds)"

lemma clock_services [simp]:
  "clock (io (dev_get d s)) = clock (io s)" "clock (io (dev_put d s)) = clock (io s)"
  "clock (io (dev_queue_xmit f s)) = clock (io s)" "clock (io (kfree_skb i s)) = clock (io s)"
  by (simp_all add: dev_get_def dev_put_def dev_queue_xmit_def kfree_skb_def)

lemma output_loop_frames:
  "\<exists>fs. tx (io (output_loop K data mac devs s)) = tx (io s) @ fs
     \<and> map fr_dev fs = map fst (filter snd (attempts K (clock (io s)) devs))
     \<and> (\<forall>f \<in> set fs. fr_data f = data \<and> fr_dest f = mac \<and> fr_proto f = ETH_P_VRR)"
proof (induction devs arbitrary: s)
  case (Cons d devs)
  show ?case
  proof (cases "k_dev K d")
    case None
    then show ?thesis using Cons.IH [of s] by simp
  next
    case (Some a)
    define f where "f = \<lparr>fr_dev = d, fr_dest = mac, fr_src = a, fr_proto = ETH_P_VRR, fr_data = data\<rparr>"
    define ok where "ok \<longleftrightarrow> k_alloc K (clock (io s))"
    define u where "u = (if ok then dev_put d (dev_queue_xmit f (tick (dev_get d s))) else tick (dev_get d s))"
    have step: "output_loop K data mac (d # devs) s = output_loop K data mac devs u"
      using Some by (simp add: skb_clone_def u_def f_def ok_def Let_def)
    have u: "clock (io u) = Suc (clock (io s))" "tx (io u) = tx (io s) @ (if ok then [f] else [])" by (simp_all add: u_def)
    obtain fs where fs: "tx (io (output_loop K data mac devs u)) = tx (io u) @ fs"
        "map fr_dev fs = map fst (filter snd (attempts K (clock (io u)) devs))"
        "\<forall>f \<in> set fs. fr_data f = data \<and> fr_dest f = mac \<and> fr_proto f = ETH_P_VRR"
      using Cons.IH [of u] by blast
    then show ?thesis unfolding step u
      using Some by (intro exI [of _ "(if ok then [f] else []) @ fs"]) (auto simp: ok_def f_def)
  qed
qed simp

lemma output_loop_dev_refs:
  "dev_refs (io (output_loop K data mac devs s)) d =
     dev_refs (io s) d + int (length (filter (\<lambda>a. a = (d, False)) (attempts K (clock (io s)) devs)))"
proof (induction devs arbitrary: s)
  case (Cons e devs)
  then show ?case by (cases "k_dev K e") (simp_all add: skb_clone_def Let_def)
qed simp

section \<open>Receiving: the queue decides\<close>

text \<open>A packet as a sender builds it: the payload is at least as long as the header says.\<close>

definition whole :: "sk_buff \<Rightarrow> bool" where
  "whole skb \<longleftrightarrow> (\<exists>h. vrr_hdr skb = Some h \<and> sizeof_vrr_header + unat (data_len h) \<le> length (skb_data skb))"

definition payload :: "sk_buff \<Rightarrow> u8 list" where
  "payload skb = (case vrr_hdr skb of None \<Rightarrow> [] | Some h \<Rightarrow> take (unat (data_len h)) (drop sizeof_vrr_header (skb_data skb)))"

definition free_all :: "nat list \<Rightarrow> 'z kern_scheme \<Rightarrow> 'z kern_scheme" where
  "free_all ids s = fold kfree_skb ids s"

definition set_queue :: "nat \<Rightarrow> sk_buff list \<Rightarrow> 'z sock_globals_scheme \<Rightarrow> 'z sock_globals_scheme" where
  "set_queue i q = upd_sock i (\<lambda>k. k\<lparr>sk_receive_queue := q\<rparr>)"

text \<open>
  What a receive call answers, given the queue: packets without data are discarded; of the first one
  with data at most \<open>len\<close> bytes are copied, the rest is lost unless the call only peeks.
\<close>

definition recv_spec :: "bool \<Rightarrow> bool \<Rightarrow> bool \<Rightarrow> nat \<Rightarrow> vrr_sock \<Rightarrow> recv_result \<times> sk_buff list" where
  "recv_spec cf dw pk len sk =
     (case dropWhile (\<lambda>p. payload p = []) (sk_receive_queue sk) of
        [] \<Rightarrow> (if sk_state sk \<noteq> SS_CONNECTED then Returns (- EINTR) [] False
              else if dw then Returns (- EWOULDBLOCK) [] False else Sleeps, [])
      | p # rest \<Rightarrow>
          if cf then (Returns (- EFAULT) [] (len < length (payload p)), p # rest)
          else (Returns (int (min len (length (payload p)))) (take len (payload p)) (len < length (payload p)),
                if pk then p # rest else rest))"

lemma whole_payload:
  assumes "whole p"
  obtains h where "vrr_hdr p = Some h" "length (payload p) = unat (data_len h)"
    "\<forall>n \<le> unat (data_len h). skb_copy_bits p sizeof_vrr_header n = Some (take n (payload p))"
proof -
  obtain h where h: "vrr_hdr p = Some h" "sizeof_vrr_header + unat (data_len h) \<le> length (skb_data p)"
    using assms by (auto simp: whole_def)
  then show ?thesis by (intro that [OF h(1)]) (auto simp: payload_def skb_copy_bits_def min_def)
qed

lemma upd_sock_twice: "upd_sock i f (upd_sock i g s) = upd_sock i (f \<circ> g) s"
  by (simp add: upd_sock_def fun_eq_iff option.map_comp)

lemma kfree_upd_sock: "kfree_skb x (upd_sock i f s) = upd_sock i f (kfree_skb x s)"
  by (simp add: kfree_skb_def upd_sock_def)

text \<open>One round of the loop on a queue that starts with a well-formed packet.\<close>

lemma recv_round_head:
  assumes "socks s i = Some sk" "sk_receive_queue sk = p # rest" "whole p"
  shows "recv_round cf dw pk i len s =
    (if payload p = [] then Some (None, set_queue i rest (kfree_skb (skb_id p) s))
     else if cf then Some (Some (Returns (- EFAULT) [] (len < length (payload p))), s)
     else Some (Some (Returns (int (min len (length (payload p)))) (take len (payload p)) (len < length (payload p))),
            if pk then s else set_queue i rest (kfree_skb (skb_id p) s)))"
proof -
  obtain h where h: "vrr_hdr p = Some h" "length (payload p) = unat (data_len h)"
    "\<forall>n \<le> unat (data_len h). skb_copy_bits p sizeof_vrr_header n = Some (take n (payload p))"
    by (rule whole_payload [OF assms(3)])
  have adv: "vrr_advance_rx_queue i s = Some (set_queue i rest (kfree_skb (skb_id p) s))"
    using assms(1,2) by (simp add: vrr_advance_rx_queue_def set_queue_def kfree_upd_sock)
  have e: "payload p = [] \<longleftrightarrow> unat (data_len h) = 0" using h(2) by (metis length_0_conv)
  show ?thesis
  proof (cases "payload p = []")
    case True
    then show ?thesis using assms(1,2) h(1) adv e by (simp add: recv_round_def)
  next
    case False
    have m: "min len (length (payload p)) \<le> unat (data_len h)" using h(2) by simp
    show ?thesis
      using False assms(1,2) h(1,2) adv e h(3) [rule_format, OF m] unfolding recv_round_def
      by (auto simp: Let_def min_def)
  qed
qed

lemma recv_round_empty:
  assumes "socks s i = Some sk" "sk_receive_queue sk = []"
  shows "recv_round cf dw pk i len s = Some (Some (fst (recv_spec cf dw pk len sk)), s)"
  using assms by (simp add: recv_round_def recv_spec_def)

lemma set_queue_sel:
  "socks s i = Some sk \<Longrightarrow> socks (set_queue i q s) i = Some (sk\<lparr>sk_receive_queue := q\<rparr>)"
  "set_queue i q (set_queue i r s) = set_queue i q s"
  "kfree_skb x (set_queue i q s) = set_queue i q (kfree_skb x s)" "socks (kfree_skb x s) = socks s"
  by (simp add: set_queue_def, simp add: set_queue_def upd_sock_twice comp_def, simp add: set_queue_def kfree_upd_sock,
      simp add: kfree_skb_def)

lemma set_queue_same: "socks s i = Some sk \<Longrightarrow> sk_receive_queue sk = q \<Longrightarrow> set_queue i q s = s"
  by (simp add: set_queue_def upd_sock_def fun_upd_idem)

text \<open>The buffers a receive call releases: those of the packets that left the queue.\<close>

definition consumed :: "sk_buff list \<Rightarrow> sk_buff list \<Rightarrow> nat list" where
  "consumed q q' = map skb_id (take (length q - length q') q)"

lemma recv_spec_suffix:
  "length (snd (recv_spec cf dw pk len sk)) \<le> length (sk_receive_queue sk)"
proof -
  have "length (dropWhile (\<lambda>p. payload p = []) (sk_receive_queue sk)) \<le> length (sk_receive_queue sk)"
    by (rule length_dropWhile_le)
  then show ?thesis by (auto simp: recv_spec_def split: list.split)
qed

lemma recv_loop_eq:
  assumes "socks s i = Some sk" "\<forall>p \<in> set (sk_receive_queue sk). whole p" "length (sk_receive_queue sk) < fuel"
  shows "recv_loop fuel cf dw pk i len s =
    (let (r, q) = recv_spec cf dw pk len sk in
     Some (r, set_queue i q (free_all (consumed (sk_receive_queue sk) q) s)))"
  using assms
proof (induction fuel arbitrary: s sk)
  case (Suc fuel)
  show ?case
  proof (cases "sk_receive_queue sk")
    case Nil
    then obtain r where r: "recv_spec cf dw pk len sk = (r, [])" by (simp add: recv_spec_def)
    then show ?thesis
      using Nil Suc.prems(1) recv_round_empty [OF Suc.prems(1) Nil]
      by (simp add: consumed_def free_all_def set_queue_same)
  next
    case (Cons p rest)
    have w: "whole p" using Suc.prems(2) Cons by simp
    show ?thesis
    proof (cases "payload p = []")
      case True
      define s1 where "s1 = set_queue i rest (kfree_skb (skb_id p) s)"
      define sk1 where "sk1 = sk\<lparr>sk_receive_queue := rest\<rparr>"
      have s1: "socks s1 i = Some sk1" using Suc.prems(1) by (simp add: s1_def sk1_def set_queue_sel)
      have sp: "recv_spec cf dw pk len sk1 = recv_spec cf dw pk len sk"
        using True Cons by (simp add: recv_spec_def sk1_def)
      obtain r q where rq: "recv_spec cf dw pk len sk = (r, q)" by (cases "recv_spec cf dw pk len sk")
      have lq: "length q \<le> length rest" using recv_spec_suffix [of cf dw pk len sk1] rq sp by (simp add: sk1_def)
      have fold: "fold kfree_skb ids (set_queue i rest u) = set_queue i rest (fold kfree_skb ids u)" for ids and u :: "'a sock_globals_scheme"
        by (induction ids arbitrary: u) (simp_all add: set_queue_sel)
      have "recv_loop fuel cf dw pk i len s1 = Some (r, set_queue i q (free_all (consumed rest q) s1))"
        using Suc.IH [OF s1] Suc.prems(2,3) Cons rq sp by (simp add: sk1_def)
      moreover have "set_queue i q (free_all (consumed rest q) s1) = set_queue i q (free_all (consumed (p # rest) q) s)"
        using lq by (simp add: s1_def free_all_def consumed_def fold set_queue_sel Suc_diff_le)
      ultimately show ?thesis
        using recv_round_head [OF Suc.prems(1) Cons w] True Cons rq by (simp add: s1_def)
    next
      case False
      then show ?thesis
        using recv_round_head [OF Suc.prems(1) Cons w] Cons Suc.prems(1)
        by (auto simp: recv_spec_def consumed_def free_all_def set_queue_same Suc_diff_le)
    qed
  qed
qed simp

lemma recvmsg_eq:
  assumes "socks s i = Some sk" "\<forall>p \<in> set (sk_receive_queue sk). whole p"
  shows "vrr_recvmsg cf dw pk i len s =
    (let (r, q) = recv_spec cf dw pk len sk in
     Some (r, set_queue i q (free_all (consumed (sk_receive_queue sk) q) s)))"
  using recv_loop_eq [OF assms, of "Suc (length (sk_receive_queue sk))"] assms(1) by (simp add: vrr_recvmsg_def)

section \<open>Sending\<close>

text \<open>The next hop towards an address and its record in the physical set.\<close>

definition next_hop :: "'z core_globals_scheme \<Rightarrow> u32 \<Rightarrow> pset_entry option" where
  "next_hop s d = (let nh = rt_search (ME s) (rt_root s) d in if nh = 0 then None else neighbour s nh)"

definition data_header :: "vrr_node \<Rightarrow> u32 \<Rightarrow> nat \<Rightarrow> mac_addr \<Rightarrow> vrr_header" where
  "data_header n dst len mac = header_for n \<lparr>pk_src = vn_id n, pk_dst = dst, pk_data_len = of_nat len, pk_pkt_type = VRR_DATA, pk_dest_mac = mac\<rparr>"

lemma data_header_sel [simp]:
  "pkt_type (data_header n dst len mac) = VRR_DATA" "src_id (data_header n dst len mac) = vn_id n"
  "dest_id (data_header n dst len mac) = dst" "data_len (data_header n dst len mac) = of_nat len"
  "dest_mac (data_header n dst len mac) = mac"
  by (simp_all add: data_header_def header_for_def)

text \<open>Sending to another node: unreachable, or the header and the bytes on every interface.\<close>

lemma sendmsg_unreachable:
  assumes "unlocked s" "vrr s = Some n" "svrr_addr d \<noteq> vn_id n" "next_hop s (svrr_addr d) = None"
  shows "vrr_sendmsg K (Some d) user len s = Some (- EHOSTUNREACH, tick s)"
proof -
  have t: "rt_get_next x (tick s) = Some (rt_search (ME s) (rt_root s) x, tick s)" for x
    using rt_get_next_run [of "tick s" x] assms(1) by (simp add: tick_def)
  show ?thesis
    using assms t by (auto simp: vrr_sendmsg_def vrr_get_node_def uninit_def next_hop_def Let_def pset_get_mac_run)
qed

text \<open>The buffer \<open>vrr_sendmsg\<close> fills, and the state it has then.\<close>

definition send_state :: "'z kern_scheme \<Rightarrow> 'z kern_scheme" where
  "send_state s = s\<lparr>io := (io s)\<lparr>clock := clock (io s) + 3, next_skb := Suc (next_skb (io s)),
     skb_users := (skb_users (io s))(next_skb (io s) := 1)\<rparr>\<rparr>"

definition send_buffer :: "kenv \<Rightarrow> vrr_header \<Rightarrow> u8 list \<Rightarrow> 'z kern_scheme \<Rightarrow> sk_buff" where
  "send_buffer K h bytes s = \<lparr>skb_id = next_skb (io s),
     skb_data = header_bytes (\<lambda>i. ucast (k_junk K (Suc (Suc (clock (io s)))) i)) h @ bytes, skb_src_mac = [], skb_dev_addr = []\<rparr>"

lemma sendmsg_reachable:
  assumes "unlocked s" "vrr s = Some n" "svrr_addr d \<noteq> vn_id n" "next_hop s (svrr_addr d) = Some e"
    and "\<forall>i. k_alloc K i" "len + VRR_SKB_RESERVE < 2 ^ 31"
  defines "h \<equiv> data_header n (svrr_addr d) len (pl_mac e)"
  shows "vrr_sendmsg K (Some d) None len s = Some (- EFAULT, send_state s)"
    "vrr_sendmsg K (Some d) (Some bytes) len s = do {
        (_, t) \<leftarrow> vrr_output K (send_buffer K h bytes s) VRR_DATA (send_state s);
        Some (int len, kfree_skb (next_skb (io s)) t) }"
proof -
  have t: "rt_get_next x (tick s) = Some (rt_search (ME s) (rt_root s) x, tick s)" for x
    using rt_get_next_run [of "tick s" x] assms(1) by (simp add: tick_def)
  obtain nh where nh: "rt_search (ME s) (rt_root s) (svrr_addr d) = nh" "nh \<noteq> 0" "neighbour s nh = Some e"
    using assms(4) by (auto simp: next_hop_def Let_def split: if_splits)
  define s1 where "s1 = snd (vrr_skb_alloc K [] (tick s))"
  have a: "vrr_skb_alloc K [] (tick s) = (Some \<lparr>skb_id = next_skb (io s), skb_data = [], skb_src_mac = [], skb_dev_addr = []\<rparr>, s1)"
    using assms(5) by (simp add: s1_def vrr_skb_alloc_def tick_def)
  have v: "vrr s1 = Some n" using assms(2) skb_alloc_snd [of "tick s" K "[]"] by (auto simp: s1_def elim!: io_onlyE)
  have c: "clock (io s1) = Suc (Suc (clock (io s)))" "tick s1 = send_state s"
    using assms(5) by (simp_all add: s1_def vrr_skb_alloc_def tick_def send_state_def)
  show "vrr_sendmsg K (Some d) None len s = Some (- EFAULT, send_state s)"
    using assms(1,2,3,6) t nh
    by (simp add: vrr_sendmsg_def vrr_get_node_def uninit_def get_vrr_id_def pset_get_mac_run a build_header_run [OF v] c)
  show "vrr_sendmsg K (Some d) (Some bytes) len s = do {
        (_, t) \<leftarrow> vrr_output K (send_buffer K h bytes s) VRR_DATA (send_state s);
        Some (int len, kfree_skb (next_skb (io s)) t) }"
    using assms(1,2,3,6) t nh
    by (cases "len = 0") (simp_all add: vrr_sendmsg_def vrr_get_node_def uninit_def get_vrr_id_def pset_get_mac_run a
        build_header_run [OF v] c h_def data_header_def send_buffer_def)
qed

lemma sendmsg_sent:
  assumes "unlocked s" "vrr s = Some n" "svrr_addr d \<noteq> vn_id n" "next_hop s (svrr_addr d) = Some e" "pset_inv s"
    and "\<forall>i. k_alloc K i" "len + VRR_SKB_RESERVE < 2 ^ 31"
  defines "h \<equiv> data_header n (svrr_addr d) len (pl_mac e)"
  obtains t where "vrr_sendmsg K (Some d) (Some bytes) len s = Some (int len, t)" "io_only s t"
    "sent K (skb_data (send_buffer K h bytes s)) (pl_mac e) (vn_dev_list n) s t"
    "skb_users (io t) = (skb_users (io s))(next_skb (io s) := -1)" "dev_refs (io t) = dev_refs (io s)"
proof -
  have m: "length (pl_mac e) = ETH_ALEN"
    using assms(4) neighbour_mac_length [OF assms(5)] by (auto simp: next_hop_def Let_def split: if_splits)
  have v: "vrr (send_state s) = Some n" using assms(2) by (simp add: send_state_def)
  have p: "parse_header (skb_data (send_buffer K h bytes s)) = Some h"
    using m by (simp add: send_buffer_def parse_header_bytes h_def)
  have io: "io_only s (send_state s)" by (simp add: send_state_def io_onlyI)
  have st: "tx (io (send_state s)) = tx (io s)" "dev_refs (io (send_state s)) = dev_refs (io s)"
      "skb_users (io (send_state s)) = (skb_users (io s))(next_skb (io s) := 1)" by (simp_all add: send_state_def)
  obtain t where t: "vrr_output K (send_buffer K h bytes s) VRR_DATA (send_state s) = Some (NET_XMIT_SUCCESS, t)"
      "io_only (send_state s) t" "sent K (skb_data (send_buffer K h bytes s)) (dest_mac h) (vn_dev_list n) (send_state s) t"
      "skb_users (io t) = (skb_users (io (send_state s)))(skb_id (send_buffer K h bytes s) :=
         skb_users (io (send_state s)) (skb_id (send_buffer K h bytes s)) - 1)"
      "(\<forall>n. k_alloc K n) \<longrightarrow> dev_refs (io t) = dev_refs (io (send_state s))"
    by (rule vrr_output_run [OF v p, of K VRR_DATA])
  have "vrr_sendmsg K (Some d) (Some bytes) len s = Some (int len, kfree_skb (next_skb (io s)) t)"
    using sendmsg_reachable(2) [OF assms(1-4,6,7), of bytes] t(1) by (simp add: h_def)
  moreover have "io_only s (kfree_skb (next_skb (io s)) t)"
    using io_only_trans [OF io_only_trans [OF io t(2)]] by simp
  ultimately show ?thesis
    using that t(3-5) st assms(6) by (simp add: sent_def h_def send_buffer_def)
qed

section \<open>Forwarding\<close>

text \<open>A received packet sent on with another Ethernet destination.\<close>

lemma readdressed_output:
  assumes "vrr s = Some n" "skb_data skb = header_bytes pad vh @ bytes" "length (dest_mac vh) = ETH_ALEN" "length m = ETH_ALEN"
  shows "\<exists>t. vrr_output K (skb\<lparr>skb_data := set_dest_mac m (skb_data skb)\<rparr>) ty s = Some (NET_XMIT_SUCCESS, t) \<and> io_only s t
     \<and> sent K (header_bytes pad (vh\<lparr>dest_mac := m\<rparr>) @ bytes) m (vn_dev_list n) s t
     \<and> skb_users (io t) = (skb_users (io s))(skb_id skb := skb_users (io s) (skb_id skb) - 1)"
proof -
  define skb' where "skb' = skb\<lparr>skb_data := set_dest_mac m (skb_data skb)\<rparr>"
  have d: "skb_data skb' = header_bytes pad (vh\<lparr>dest_mac := m\<rparr>) @ bytes"
    using assms(2-4) by (simp add: skb'_def set_dest_mac_header)
  have p: "parse_header (skb_data skb') = Some (vh\<lparr>dest_mac := m\<rparr>)" using assms(4) by (simp add: d parse_header_bytes)
  have "\<exists>t. vrr_output K skb' ty s = Some (NET_XMIT_SUCCESS, t) \<and> io_only s t \<and> sent K (skb_data skb') m (vn_dev_list n) s t
      \<and> skb_users (io t) = (skb_users (io s))(skb_id skb := skb_users (io s) (skb_id skb) - 1)"
    by (rule vrr_output_run [OF assms(1) p, of K ty]) (auto simp: skb'_def)
  then show ?thesis unfolding d by (simp add: skb'_def)
qed

lemma forward_run:
  assumes "unlocked s" "vrr s = Some n" "pset_inv s" "skb_data skb = header_bytes pad vh @ bytes" "length (dest_mac vh) = ETH_ALEN"
  shows "case next_hop s (dest_id vh) of
      None \<Rightarrow> vrr_forward K skb vh s = Some (NET_XMIT_DROP, s)
    | Some e \<Rightarrow> \<exists>t. vrr_forward K skb vh s = Some (NET_XMIT_SUCCESS, t) \<and> io_only s t
        \<and> sent K (header_bytes pad (vh\<lparr>dest_mac := pl_mac e\<rparr>) @ bytes) (pl_mac e) (vn_dev_list n) s t
        \<and> skb_users (io t) = (skb_users (io s))(skb_id skb := skb_users (io s) (skb_id skb) - 1)"
proof (cases "next_hop s (dest_id vh)")
  case None
  then show ?thesis
    using assms(1) by (auto simp: next_hop_def Let_def vrr_forward_def rt_get_next_run pset_get_mac_run)
next
  case (Some e)
  then have m: "length (pl_mac e) = ETH_ALEN"
    using neighbour_mac_length [OF assms(3)] by (auto simp: next_hop_def Let_def split: if_splits)
  have "vrr_forward K skb vh s = vrr_output K (skb\<lparr>skb_data := set_dest_mac (pl_mac e) (skb_data skb)\<rparr>) VRR_DATA s"
    using Some assms(1) by (auto simp: next_hop_def Let_def vrr_forward_def rt_get_next_run pset_get_mac_run split: if_splits)
  then show ?thesis using readdressed_output [OF assms(2,4,5) m, of K VRR_DATA] by (simp add: Some)
qed

section \<open>Delivery\<close>

text \<open>
  Delivery to a socket that no process holds: \<open>sk_receive_skb\<close> calls the backlog function of the
  protocol, \<open>vrr_backlog_rcv\<close>, and \<open>sock_queue_rcv_skb\<close> has room and appends the buffer.
\<close>

definition enqueue :: "nat \<Rightarrow> sk_buff \<Rightarrow> 'z sock_globals_scheme \<Rightarrow> int \<times> 'z sock_globals_scheme" where
  "enqueue i skb s = (0, upd_sock i (\<lambda>k. k\<lparr>sk_receive_queue := sk_receive_queue k @ [skb]\<rparr>) s)"

definition deliver :: "'z rx_layer" where
  "deliver = vrr_backlog_rcv enqueue"

lemma deliver_eq: "deliver i skb s = (0, upd_sock i (\<lambda>k. k\<lparr>sk_receive_queue := sk_receive_queue k @ [skb]\<rparr>) s)"
  by (simp add: deliver_def vrr_backlog_rcv_def enqueue_def)

lemma found_sock_connected:
  "socks_inv s \<Longrightarrow> found_sock s a = Some i \<Longrightarrow> \<exists>sk. socks s i = Some sk \<and> sk_state sk = SS_CONNECTED \<and> rem_addr sk = a"
  using vrr_hash_list_less [of a] by (fastforce simp: found_sock_def socks_inv_def has_addr_def dest!: first_match_SomeD)

lemma reset_counters_socks:
  assumes "reset_active_timeout s \<bind> pset_reset_fail_count x = Some (r, t)" "\<not> held s vrr_pset_lock"
  shows "socks t = socks s \<and> hlist t = hlist s"
proof -
  obtain s1 where 1: "reset_active_timeout s = Some s1" "pset_reset_fail_count x s1 = Some (r, t)"
    using assms(1) by (auto simp: run_simps)
  then have "socks s1 = socks s \<and> hlist s1 = hlist s \<and> \<not> held s1 vrr_pset_lock"
    using assms(2) by (auto simp: reset_active_timeout_def run_simps)
  then show ?thesis using 1(2) by (auto simp: pset_reset_fail_count_run)
qed

lemma receive_data:
  assumes "sys_inv s" "vrr_hdr skb = Some h" "pkt_type h = VRR_DATA" "dest_id h = ME s"
    and "found_sock s (src_id h) = Some i" "socks s i = Some sk"
  obtains t where "vrr_rcv K deliver skb s = Some (NET_RX_SUCCESS, t)"
    "socks t i = Some (sk\<lparr>sk_receive_queue := sk_receive_queue sk @ [skb]\<rparr>)"
proof -
  have core: "sys_core s" using assms(1) by (simp add: sys_inv_def)
  have u: "\<not> held s vrr_pset_lock" using core by (simp add: sys_core_def net_def)
  obtain s1 x where 1: "reset_active_timeout s \<bind> pset_reset_fail_count (src_id h) = Some (x, s1)" "sys_core s1" "ME s1 = ME s"
    by (rule reset_counters_run [OF core, of "src_id h"]) blast
  have k: "socks s1 = socks s" "hlist s1 = hlist s" using reset_counters_socks [OF 1(1) u] by simp_all
  have st: "\<not> held s1 vrr_socks_lock" "socks_inv s1" using 1(2) by (simp_all add: sys_core_def net_def)
  have f: "first_match (has_addr s1 (src_id h)) (hlist s1 ! vrr_hash_list (src_id h)) = Some i"
    using assms(5) k unfolding found_sock_def has_addr_def [abs_def] by simp
  have find: "vrr_find_sock (src_id h) s1 = Some (Some i, sock_hold i s1)"
    using vrr_find_sock_run [OF st, of "src_id h"] f by simp
  obtain n where n: "vrr s1 = Some n" "vn_id n = ME s" using 1(2,3) by (auto elim: sys_core_can_send)
  define t where "t = sock_put i (upd_sock i (\<lambda>k. k\<lparr>sk_receive_queue := sk_receive_queue k @ [skb]\<rparr>) (sock_hold i s1))"
  have "vrr_rcv_data K deliver skb h s1 = Some (0, t)"
    using assms(4) n find by (simp add: vrr_rcv_data_def get_vrr_id_def deliver_eq t_def)
  then have "vrr_rcv K deliver skb s = Some (NET_RX_SUCCESS, t)"
    using assms(2,3) 1(1) by (auto simp: vrr_rcv_def vrr_rcvfunc_def run_simps word_le_nat_alt)
  moreover have "socks t i = Some (sk\<lparr>sk_receive_queue := sk_receive_queue sk @ [skb]\<rparr>)"
    using assms(6) k by (simp add: t_def sock_put_def sock_hold_def)
  ultimately show ?thesis using that by blast
qed

section \<open>Properties\<close>


definition demo_sender :: input_globals where
  "demo_sender = demo_input\<lparr>rt_root := \<langle>\<langle>\<rangle>, \<lparr>endpoint = 7, routes = [\<lparr>ea = 5, eb = 7, na = 5, nb = 7, path_id = 1\<rparr>]\<rparr>, \<langle>\<rangle>\<rangle>\<rparr>"

definition demo_listener :: input_globals where
  "demo_listener = connected 3 5 demo_peer"

lemma demo_sender_ok [simp]: "sys_inv demo_sender" "next_hop demo_sender 7 = Some (demo_entry 7 PSET_LINKED)" "ME demo_sender = 5"
proof -
  show "sys_inv demo_sender"
    using demo_input_ok by (simp add: demo_sender_def sys_inv_def sys_core_def work_ok_def net_def unlocked_def rt_inv_def rt_ordered_def
        rt_entries_ok_def vset_inv_def pset_inv_def core_inv_def pstate_ok_def node_ok_def socks_inv_def updates_ok_def)
  show "next_hop demo_sender 7 = Some (demo_entry 7 PSET_LINKED)"
    by (simp add: next_hop_def demo_sender_def demo_input_defs route_list_search_def get_diff_def neighbour_def demo_entry_def)
  show "ME demo_sender = 5" by (simp add: demo_sender_def demo_input_defs)
qed

lemma demo_listener_ok [simp]:
  "sys_inv demo_listener" "ME demo_listener = 7" "found_sock demo_listener 5 = Some 3"
  "\<exists>sk. socks demo_listener 3 = Some sk \<and> sk_receive_queue sk = []"
proof -
  obtain sk where sk: "socks demo_peer 3 = Some sk" "sk_state sk \<noteq> SS_CONNECTED" "sk_receive_queue sk = []"
    by (simp add: demo_peer_def demo_input_defs)
  have k: "socks_inv demo_peer" using demo_peer_ok by (simp add: sys_inv_def sys_core_def)
  have "sock_only demo_peer demo_listener" by (simp add: demo_listener_def connected_def Let_def sock_only_def upd_sock_def)
  then show "sys_inv demo_listener"
    using sys_inv_sock socks_inv_connected [OF k sk(1,2), of 5] demo_peer_ok unfolding demo_listener_def by blast
  show "found_sock demo_listener 5 = Some 3" using found_connected [OF k sk(1,2), of 5 5] by (simp add: demo_listener_def)
  show "\<exists>sk. socks demo_listener 3 = Some sk \<and> sk_receive_queue sk = []"
    using sk by (simp add: demo_listener_def connected_def Let_def)
  show "ME demo_listener = 7" by (simp add: demo_listener_def connected_def Let_def upd_sock_def demo_peer_def)
qed


text \<open>
  C15: receiving is decided by the queue. If every queued packet is as long as its header says, the
  receive call returns for any flags and any buffer length: it discards packets without data, copies
  from the first one with data, reports truncation, removes what it consumed unless it peeks, and
  releases each removed buffer exactly once. The number of rounds left over does not matter.
\<close>

theorem recvmsg_decided_by_queue:
  assumes "socks s i = Some sk" "\<forall>p \<in> set (sk_receive_queue sk). whole p" "length (sk_receive_queue sk) < fuel"
  shows "\<exists>r q t. recv_spec cf dw pk len sk = (r, q) \<and> t = set_queue i q (free_all (consumed (sk_receive_queue sk) q) s)
     \<and> vrr_recvmsg cf dw pk i len s = Some (r, t) \<and> recv_loop fuel cf dw pk i len s = Some (r, t)"
  using recvmsg_eq [OF assms(1,2), of cf dw pk len] recv_loop_eq [OF assms, of cf dw pk len] by (auto split: prod.splits)

theorem recvmsg_decided_by_queue_witness:
  "\<exists>t. vrr_recvmsg False True False 3 100 demo_listener = Some (Returns (- EWOULDBLOCK) [] False, t)"
proof -
  obtain sk where sk: "socks demo_listener 3 = Some sk" "sk_receive_queue sk = []" using demo_listener_ok(4) by blast
  have "sk_state sk = SS_CONNECTED"
    using sk(1) found_sock_connected [of demo_listener 5 3] demo_listener_ok(1,3) by (auto simp: sys_inv_def sys_core_def)
  then show ?thesis
    using recvmsg_decided_by_queue [OF sk(1), of 1 False True False 100] sk(2) by (auto simp: recv_spec_def)
qed



text \<open>
  C24: forwarding changes the Ethernet destination and nothing else. A data packet for another node
  whose next hop is known leaves on every existing interface with the same header and payload, but
  for the hop's address, and its buffer is released once. Without a next hop it is dropped: the
  state is unchanged, so the buffer is never released.
\<close>

theorem forward_rewrites_address:
  assumes "unlocked s" "vrr s = Some n" "pset_inv s" "skb_data skb = header_bytes pad vh @ bytes" "length (dest_mac vh) = ETH_ALEN"
  shows "case next_hop s (dest_id vh) of
      None \<Rightarrow> vrr_forward K skb vh s = Some (NET_XMIT_DROP, s)
    | Some e \<Rightarrow> \<exists>t fs. vrr_forward K skb vh s = Some (NET_XMIT_SUCCESS, t) \<and> io_only s t \<and> tx (io t) = tx (io s) @ fs
        \<and> (\<forall>f \<in> set fs. fr_data f = header_bytes pad (vh\<lparr>dest_mac := pl_mac e\<rparr>) @ bytes \<and> fr_dest f = pl_mac e)
        \<and> ((\<forall>i. k_alloc K i) \<longrightarrow> map fr_dev fs = live K (vn_dev_list n))
        \<and> skb_users (io t) = (skb_users (io s))(skb_id skb := skb_users (io s) (skb_id skb) - 1)"
proof (cases "next_hop s (dest_id vh)")
  case None
  then show ?thesis using forward_run [OF assms, of K] by simp
next
  case (Some e)
  then obtain t where t: "vrr_forward K skb vh s = Some (NET_XMIT_SUCCESS, t)" "io_only s t"
      "sent K (header_bytes pad (vh\<lparr>dest_mac := pl_mac e\<rparr>) @ bytes) (pl_mac e) (vn_dev_list n) s t"
      "skb_users (io t) = (skb_users (io s))(skb_id skb := skb_users (io s) (skb_id skb) - 1)"
    using forward_run [OF assms, of K] by auto
  then obtain fs where "tx (io t) = tx (io s) @ fs" "(\<forall>i. k_alloc K i) \<longrightarrow> map fr_dev fs = live K (vn_dev_list n)"
      "\<forall>f \<in> set fs. fr_data f = header_bytes pad (vh\<lparr>dest_mac := pl_mac e\<rparr>) @ bytes \<and> fr_dest f = pl_mac e"
    by (auto simp: sent_def frames_of_def)
  then show ?thesis using Some t(1,2,4) by auto
qed

theorem forward_rewrites_address_witness:
  "\<exists>t f. vrr_forward demo_env (demo_skb (demo_header VRR_DATA 8 7) [1]) (demo_header VRR_DATA 8 7) demo_sender = Some (NET_XMIT_SUCCESS, t)
     \<and> tx (io t) = [f] \<and> fr_dest f = [2, 0, 0, 0, 0, 7]"
proof -
  have inv: "unlocked demo_sender" "pset_inv demo_sender"
    using demo_sender_ok(1) by (simp_all add: sys_inv_def sys_core_def net_def)
  obtain n where n: "vrr demo_sender = Some n" "vn_dev_list n = [''wlan0'']" "tx (io demo_sender) = []"
    by (simp add: demo_sender_def demo_input_defs idle_io_def)
  have d: "skb_data (demo_skb (demo_header VRR_DATA 8 7) [1]) = header_bytes (\<lambda>i. 0) (demo_header VRR_DATA 8 7) @ be32s [1]"
    "length (dest_mac (demo_header VRR_DATA 8 7)) = ETH_ALEN" by (simp_all add: demo_skb_def demo_header_def)
  obtain t fs where "vrr_forward demo_env (demo_skb (demo_header VRR_DATA 8 7) [1]) (demo_header VRR_DATA 8 7) demo_sender = Some (NET_XMIT_SUCCESS, t)"
      "tx (io t) = fs" "\<forall>f \<in> set fs. fr_dest f = [2, 0, 0, 0, 0, 7]" "map fr_dev fs = [''wlan0'']"
    using forward_rewrites_address [OF inv(1) n(1) inv(2) d, of demo_env] n(2,3) by (auto simp: demo_entry_def live_def)
  then show ?thesis by auto
qed

text \<open>
  C28: references to devices. \<open>vrr_output\<close> reports success whatever happens. It queues one frame on each
  existing interface whose clone could be allocated, releases the buffer once, and for every clone that
  failed keeps one reference to that device for ever.
\<close>

theorem output_accounting:
  assumes "vrr s = Some n" "parse_header (skb_data skb) = Some vh"
  shows "\<exists>t fs. vrr_output K skb ty s = Some (NET_XMIT_SUCCESS, t) \<and> io_only s t \<and> tx (io t) = tx (io s) @ fs
     \<and> map fr_dev fs = map fst (filter snd (attempts K (clock (io s)) (vn_dev_list n)))
     \<and> (\<forall>f \<in> set fs. fr_data f = skb_data skb \<and> fr_dest f = dest_mac vh \<and> fr_proto f = ETH_P_VRR)
     \<and> skb_users (io t) = (skb_users (io s))(skb_id skb := skb_users (io s) (skb_id skb) - 1)
     \<and> (\<forall>d. dev_refs (io t) d = dev_refs (io s) d
          + int (length (filter (\<lambda>a. a = (d, False)) (attempts K (clock (io s)) (vn_dev_list n)))))"
proof -
  define u where "u = output_loop K (skb_data skb) (dest_mac vh) (vn_dev_list n) s"
  have run: "vrr_output K skb ty s = Some (NET_XMIT_SUCCESS, kfree_skb (skb_id skb) u)"
    using assms by (simp add: vrr_output_def vrr_get_node_def u_def)
  have io: "io_only s (kfree_skb (skb_id skb) u)"
    by (rule io_only_trans [of _ u]) (simp_all add: u_def io_only_output_loop)
  show ?thesis
    using run io output_loop_frames [of K "skb_data skb" "dest_mac vh" "vn_dev_list n" s]
    by (auto simp: u_def [symmetric] output_loop_users [of K "skb_data skb" "dest_mac vh" "vn_dev_list n" s, folded u_def]
        output_loop_dev_refs [of K "skb_data skb" "dest_mac vh" "vn_dev_list n" s, folded u_def])
qed

theorem output_accounting_witness:
  "\<exists>t. vrr_output (demo_env\<lparr>k_alloc := (\<lambda>i. False)\<rparr>) (demo_skb (demo_header VRR_DATA 5 7) []) VRR_DATA demo_sender = Some (NET_XMIT_SUCCESS, t)
     \<and> tx (io t) = [] \<and> dev_refs (io t) ''wlan0'' = 1"
proof -
  obtain n where n: "vrr demo_sender = Some n" "vn_dev_list n = [''wlan0'']" "tx (io demo_sender) = []" "dev_refs (io demo_sender) = (\<lambda>d. 0)"
    by (simp add: demo_sender_def demo_input_defs idle_io_def)
  have p: "parse_header (skb_data (demo_skb (demo_header VRR_DATA 5 7) [])) = Some (demo_header VRR_DATA 5 7)"
    using carries_hdr [OF demo_skb_carries] by (simp add: vrr_hdr_def)
  show ?thesis
    using output_accounting [OF n(1) p, of "demo_env\<lparr>k_alloc := (\<lambda>i. False)\<rparr>" VRR_DATA] n(2-4) by auto
qed

text \<open>
  C32: the length in the header is trusted. A queued packet whose header announces more data than the
  packet holds makes a receive call with a large enough buffer copy beyond its end: the call has no
  defined result, for any flags.
\<close>

theorem recvmsg_overreads:
  assumes "socks s i = Some sk" "sk_receive_queue sk = p # rest" "vrr_hdr p = Some h"
    and "length (skb_data p) < sizeof_vrr_header + unat (data_len h)" "unat (data_len h) \<le> len"
  shows "vrr_recvmsg cf dw pk i len s = None"
proof -
  have "sizeof_vrr_header \<le> length (skb_data p)"
    using assms(3) parse_header_None_iff [of "skb_data p"] by (auto simp: vrr_hdr_def)
  then have nz: "unat (data_len h) \<noteq> 0" using assms(4) by linarith
  have "recv_round cf dw pk i len s = None"
    using assms nz by (simp add: recv_round_def Let_def skb_copy_bits_def)
  then show ?thesis using assms(1,2) by (simp add: vrr_recvmsg_def)
qed

theorem recvmsg_overreads_witness:
  "vrr_recvmsg False False False 3 100
     (set_queue 3 [demo_skb ((demo_header VRR_DATA 5 7)\<lparr>data_len := 50\<rparr>) [1, 2]] demo_listener) = None"
proof -
  let ?h = "(demo_header VRR_DATA 5 7)\<lparr>data_len := 50\<rparr>"
  obtain sk where sk: "socks demo_listener 3 = Some sk" using demo_listener_ok(4) by blast
  have m: "length (dest_mac ?h) = ETH_ALEN" by (simp add: demo_header_def)
  have "vrr_hdr (demo_skb ?h [1, 2]) = Some ?h" "length (skb_data (demo_skb ?h [1, 2])) = 36"
    using parse_header_bytes [OF m] length_header_bytes [OF m] by (simp_all add: vrr_hdr_def demo_skb_def sizeof_vrr_header_def)
  then show ?thesis
    by (intro recvmsg_overreads [where p = "demo_skb ?h [1, 2]", OF set_queue_sel(1) [OF sk], where h = ?h]) (simp_all add: sizeof_vrr_header_def)
qed

end
