(* ===== verification/Setup_Path.thy ===== *)
theory Setup_Path
  imports Data_Path
begin

text \<open>
  Setting up and tearing down paths: what a setup request, a setup, a setup failure and a teardown do at
  the node they reach, from the dispatcher on. The first part says how each handler reads what a sender
  put into the message; the second follows a request and its answer through two neighbours; the third
  proves for which packets the handlers have no defined result.
\<close>

section \<open>From the dispatcher to the handler\<close>

lemma sys_core_can_add:
  assumes "sys_core s" "4 * (vset_size s + 3) \<le> INT_MAX"
  obtains n where "can_add s n" "vrr s = Some n" "vn_id n = ME s"
proof -
  obtain n where n: "can_send s n" "vrr s = Some n" "vn_id n = ME s" by (rule sys_core_can_send [OF assms(1)])
  obtain ps where "arrays_ok ps" "mirrors ps (pset s)" using assms(1) by (auto simp: sys_core_def core_inv_def pstate_ok_def)
  then have "length (proxies s) \<le> VRR_PSET_SIZE"
    using mirrors_fits [of ps "pset s"] by (simp add: fits_def proxies_def linked_active_def [abs_def])
  then show ?thesis using that n assms(2) by (simp add: can_add_def)
qed

text \<open>The state a handler starts from: the timeout of the node and the failure count of the sender are reset.\<close>

definition heard :: "u32 \<Rightarrow> 'z core_globals_scheme \<Rightarrow> 'z core_globals_scheme" where
  "heard x s = s\<lparr>vrr := map_option (\<lambda>n. n\<lparr>vn_timeout := 0\<rparr>) (vrr s),
     pset := upd_first (\<lambda>e. pl_node e = x) (\<lambda>e. e\<lparr>fail_count := 0\<rparr>) (pset s)\<rparr>"

lemma heard_sel [simp]:
  "rt_root (heard x s) = rt_root s" "ME (heard x s) = ME s" "vset (heard x s) = vset s" "vset_size (heard x s) = vset_size s"
  "io (heard x s) = io s" "held (heard x s) = held s" "vrr (heard x s) = map_option (\<lambda>n. n\<lparr>vn_timeout := 0\<rparr>) (vrr s)"
  "in_vset (heard x s) y = in_vset s y"
  by (simp_all add: heard_def in_vset_def)

lemma heard_neighbour:
  "neighbour (heard x s) y = (if y = x then map_option (\<lambda>e. e\<lparr>fail_count := 0\<rparr>) (neighbour s x) else neighbour s y)"
  using neighbour_update [where f = "\<lambda>tmp. tmp\<lparr>fail_count := 0\<rparr>" and s = s and node = x and x = y]
  by (simp add: heard_def neighbour_def)

lemma heard_link_status [simp]: "link_status (heard x s) y = link_status s y"
  by (simp add: link_status_def heard_neighbour split: option.split)

lemma vrr_rcv_dispatch:
  assumes "sys_inv s" "vrr_hdr skb = Some h" "pkt_type h < VRR_NPTYPES"
  shows "sys_inv (heard (src_id h) s)"
    "vrr_rcv K R skb s = do {
       (err, s) \<leftarrow> vrr_rcvfunc K R (pkt_type h) skb h (heard (src_id h) s);
       if err \<noteq> 0 then Some (NET_RX_DROP, kfree_skb (skb_id skb) s) else Some (NET_RX_SUCCESS, s) }"
proof -
  have core: "sys_core s" using assms(1) by (simp add: sys_inv_def)
  obtain n where n: "vrr s = Some n" using core by (auto elim: sys_core_can_send)
  define s1 where "s1 = s\<lparr>vrr := Some (n\<lparr>vn_timeout := 0\<rparr>)\<rparr>"
  have 1: "reset_active_timeout s = Some s1" using n by (simp add: reset_active_timeout_def s1_def)
  have i1: "sys_inv s1" by (rule sys_inv_keeps1 [OF reset_active_timeout_keeps assms(1) 1])
  then have u: "\<not> held s1 vrr_pset_lock" by (simp add: sys_inv_def sys_core_def net_def)
  obtain x where 2: "pset_reset_fail_count (src_id h) s1 = Some (x, heard (src_id h) s)"
    using n pset_reset_fail_count_run [OF u, of "src_id h"] by (simp add: heard_def s1_def)
  show "sys_inv (heard (src_id h) s)" by (rule sys_inv_keeps [OF reset_fail_count_keeps i1 2])
  show "vrr_rcv K R skb s = do {
       (err, s) \<leftarrow> vrr_rcvfunc K R (pkt_type h) skb h (heard (src_id h) s);
       if err \<noteq> 0 then Some (NET_RX_DROP, kfree_skb (skb_id skb) s) else Some (NET_RX_SUCCESS, s) }"
    using assms(2) assms(3) [unfolded not_le [symmetric]] 1 2 by (simp add: vrr_rcv_def)
qed

section \<open>Reading a message\<close>

lemma u32_le_4: "n < 2 ^ 32 \<Longrightarrow> (of_nat n :: u32) > of_nat VRR_VSET_SIZE \<longleftrightarrow> VRR_VSET_SIZE < n"
  using of_nat_u32_less [of 4 n] by simp

lemma read_vset_refused: "4 < k \<Longrightarrow> k < 2 ^ 32 \<Longrightarrow> read_vset K skb off (of_nat k) x s = (None, s)"
  using u32_le_4 [of k] by (simp add: read_vset_def del: of_nat_numeral)

lemma read_vset_run:
  assumes "\<forall>i. k_alloc K i" "sz \<le> of_nat VRR_VSET_SIZE"
  shows "read_vset K skb off sz x s =
    (Some (unat sz, read_u32s skb off (unat sz) (k_junk K (Suc (clock (io s)))) @ map (k_junk K (Suc (clock (io s)))) [unat sz..<unat sz + x]),
     tick (tick s))"
  using assms by (simp add: read_vset_def kmalloc_def uninit_def Let_def not_less)

lemma of_nat_le_4: "k \<le> 4 \<Longrightarrow> (of_nat k :: u32) \<le> of_nat VRR_VSET_SIZE \<and> unat (of_nat k :: u32) = k"
  using of_nat_u32_le [of k 4] by (simp add: unsigned_of_nat take_bit_eq_mod)

lemma read_vset_message:
  assumes "\<forall>i. k_alloc K i" "carries h (pre @ vs) (skb_data skb)" "length vs = k" "k \<le> 4"
    and "off = sizeof_vrr_header + 4 * length pre"
  shows "\<exists>junk. read_vset K skb off (of_nat k) x s = (Some (k, vs @ map junk [k..<k + x]), tick (tick s))"
proof -
  have "read_u32s skb off k j = vs" for j
    using carries_words [OF assms(2), of "length pre" k off j] assms(3,5) by simp
  then show ?thesis
    using read_vset_run [OF assms(1) of_nat_le_4 [OF assms(4), THEN conjunct1], of skb off x s] of_nat_le_4 [OF assms(4)] by auto
qed

section \<open>Packets without a defined result\<close>

lemma teardown_unknown:
  assumes "sys_core s" "carries h ([endp, pid] @ ws) (skb_data skb)"
    and "case rt_routes (rt_root s) endp of None \<Rightarrow> True | Some rs \<Rightarrow> \<forall>r \<in> set rs. path_id r \<noteq> pid"
  shows "vrr_rcv_teardown K skb h s = None"
proof -
  have u: "\<not> held s vrr_rt_lock" using assms(1) by (simp add: sys_core_def net_def)
  have w: "read_u32 skb sizeof_vrr_header o0 = endp" "read_u32 skb (sizeof_vrr_header + 4) o1 = pid" for o0 o1
    using carries_word [OF assms(2), of 0] carries_word [OF assms(2), of 1] by simp_all
  have "(case rt_routes (rt_root s) endp of None \<Rightarrow> None | Some rs \<Rightarrow> first_match (\<lambda>tmp. path_id tmp = pid) rs) = None"
    using assms(3) by (simp add: first_match_None_iff split: option.splits)
  moreover have "rt_root (tick s) = rt_root s" by (simp add: tick_def)
  ultimately show ?thesis
    using u rt_remove_route_run [of "tick s" endp pid] by (simp add: vrr_rcv_teardown_def uninit_def w)
qed

lemma setup_fail_at_destination:
  assumes "sys_core s" "carries h ([proxy, of_nat k] @ vs) (skb_data skb)" "length vs = k" "k \<le> 4" "\<forall>i. k_alloc K i"
    and "dest_id h = ME s" "link_status s (ME s) = PSET_UNKNOWN" "rt_search (ME s) (rt_root s) proxy = 0"
  shows "vrr_rcv_setup_fail K skb h s = None"
proof -
  have w: "read_u32 skb sizeof_vrr_header o0 = proxy" "read_u32 skb (sizeof_vrr_header + 4) o1 = of_nat k" for o0 o1
    using carries_word [OF assms(2), of 0] carries_word [OF assms(2), of 1] by simp_all
  have c: "carries h ([proxy, of_nat k] @ vs) (skb_data skb)" by fact
  obtain junk where r: "read_vset K skb (sizeof_vrr_header + 8) (of_nat k) 1 (tick s) = (Some (k, vs @ map junk [k..<k + 1]), tick (tick (tick s)))"
    using read_vset_message [OF assms(5) c assms(3,4), of "sizeof_vrr_header + 8" 1 "tick s"] by auto
  let ?t = "tick (tick (tick s))"
  have u: "\<not> held ?t vrr_pset_lock" "\<not> held ?t vrr_rt_lock" using assms(1) by (simp_all add: sys_core_def net_def)
  have t: "link_status ?t = link_status s" "rt_root ?t = rt_root s" "ME ?t = ME s"
    by (simp_all add: link_status_def fun_eq_iff) (simp_all add: tick_def)
  have nh: "setup_next_hop (ME s) proxy ?t = Some (0, ?t)"
    using assms(7,8) by (simp add: setup_next_hop_def pset_get_status_run [OF u(1)] rt_get_next_run [OF u(2)] t)
  obtain n where "vrr s = Some n" "vn_id n = ME s" using assms(1) by (auto elim: sys_core_can_send)
  then have "get_vrr_id ?t = Some (ME s)" by (simp add: get_vrr_id_def)
  moreover have "arr_upd (vs @ [junk k]) (k + 1) (src_id h) = None" using assms(3) by (simp add: arr_upd_def)
  ultimately show ?thesis
    using assms(6) r nh by (simp add: vrr_rcv_setup_fail_def uninit_def w)
qed

section \<open>Frames are only ever added\<close>

definition tx_grows :: "'z kern_scheme \<Rightarrow> 'z kern_scheme \<Rightarrow> bool" where
  "tx_grows s t \<longleftrightarrow> (\<exists>fs. tx (io t) = tx (io s) @ fs)"

interpretation txf: state_frame any_state tx_grows
  by unfold_locales (auto simp: tx_grows_def)

lemma tx_same: "tx (io t) = tx (io s) \<Longrightarrow> tx_grows s t"
  by (simp add: tx_grows_def)

lemma sent_grows: "sent K d m devs s t \<Longrightarrow> tx_grows s t"
  by (auto simp: sent_def tx_grows_def)

lemma tx_skb_alloc: "tx (io (snd (vrr_skb_alloc K d s))) = tx (io s)"
  by (simp add: vrr_skb_alloc_def)

lemma output_keeps_tx: "keeps any_state tx_grows (vrr_output K skb ty)"
  using sent_grows [OF sent_output_loop] by (auto simp: keeps_def vrr_output_def run_simps tx_grows_def)

lemma alloc_and_output_tx: "alloc_and_output K ws a b ty m s = Some (r, t) \<Longrightarrow> tx_grows s t"
proof -
  assume run: "alloc_and_output K ws a b ty m s = Some (r, t)"
  obtain x s1 where 1: "vrr_skb_alloc K (be32s ws) s = (x, s1)" by (cases "vrr_skb_alloc K (be32s ws) s")
  then have s1: "tx (io s1) = tx (io s)" using tx_skb_alloc [of K "be32s ws" s] by simp
  show ?thesis
  proof (cases x)
    case None
    then show ?thesis using run 1 s1 by (simp add: alloc_and_output_def tx_same)
  next
    case (Some skb)
    then obtain u skb' where "vrr_output K skb' ty (tick s1) = Some (u, t)"
      using run 1 by (auto simp: alloc_and_output_def build_and_output_def run_simps build_header_def uninit_def)
    then show ?thesis using keepsD [OF output_keeps_tx [of K skb' ty], of "tick s1" u t] s1 by (simp add: tx_grows_def)
  qed
qed

lemma send_tx:
  "send_setup_req K a b c s = Some (r, t) \<Longrightarrow> tx_grows s t"
proof -
  assume run: "send_setup_req K a b c s = Some (r, t)"
  obtain m s1 n vs s2 z where 1: "pset_get_mac c (tick s) = Some (m, s1)" "vset_get_all K s1 = Some ((n, vs), s2)"
      "alloc_and_output K ([c, of_nat n] @ take n vs) (Some a) b VRR_SETUP_REQ z (tick s2) = Some (r, t)"
    using run by (auto simp: send_setup_req_def uninit_def kmalloc_def run_simps arr_prefix_def split: if_splits)
  have "tx (io s2) = tx (io s1)"
    using 1(2) by (auto simp: vset_get_all_def spin_lock_def spin_unlock_def kmalloc_def uninit_def run_simps Let_def split: if_splits)
  moreover have "tx (io s1) = tx (io s)" using pset_get_mac_state [OF 1(1)] by simp
  ultimately show ?thesis using alloc_and_output_tx [OF 1(3)] by (simp add: tx_grows_def)
qed

lemma vrr_add_loop_tx: "vrr_add_loop K me vs s = Some t \<Longrightarrow> tx_grows s t"
proof (induction vs arbitrary: s)
  case Nil
  then show ?case by (simp add: txf.frame_refl)
next
  case (Cons v vs)
  obtain r s1 s2 where 1: "vset_should_add K v s = Some (r, s1)"
    and 2: "(if r \<noteq> 0 then do { (ret, s) \<leftarrow> pset_get_proxy K s1;
          case ret of None \<Rightarrow> Some s | Some proxy \<Rightarrow> do { (_, s) \<leftarrow> send_setup_req K me v proxy s; Some s } }
        else Some s1) = Some s2" and 3: "vrr_add_loop K me vs s2 = Some t"
    using Cons.prems by (auto simp: run_simps)
  have "tx (io s1) = tx (io s)"
    using 1 by (auto simp: vset_should_add_def spin_lock_def spin_unlock_def uninit_def run_simps Let_def split: if_splits)
  then have a: "tx_grows s s1" by (rule tx_same)
  have p: "pset_get_proxy K s1 = Some (x, u) \<Longrightarrow> tx_grows s1 u" for x u
    by (rule tx_same) (auto simp: pset_get_proxy_def spin_lock_def spin_unlock_def get_random_bytes_def run_simps Let_def split: if_splits)
  have "tx_grows s1 s2"
    using 2 by (auto simp: run_simps txf.frame_refl split: if_splits option.splits dest!: p send_tx intro: txf.frame_trans)
  then show ?case using a Cons.IH [OF 3] txf.frame_trans by metis
qed

section \<open>A new virtual neighbour\<close>

text \<open>While the virtual set has fewer than four entries, an unknown sender is always taken in.\<close>

lemma vrr_add_new:
  assumes "can_add s n" "\<forall>i. k_alloc K i" "sort_by_address K" "k \<le> length vs"
    and "src \<noteq> UINT_MAX" "\<not> in_vset s src" "vset_size s < VRR_VSET_SIZE"
  obtains t where "vrr_add K src k vs s = Some (1, t)" "vset_inv t" "vset_only s t" "in_vset t src" "vset_size t = vset_size s + 1"
    "tx_grows s t"
proof -
  have v: "vrr s = Some n" using assms(1) by (simp add: can_add_def can_send_def)
  obtain s1 where 1: "vrr_add_loop K (vn_id n) (take k vs) s = Some s1"
    using vrr_add_loop_total [OF assms(1-3)] by blast
  have io1: "io_only s s1" by (rule vrr_add_loop_io [OF 1])
  have a1: "can_add s1 n" using can_add_io_only [OF io1] assms(1) by simp
  have st: "\<not> held s1 vrr_vset_lock" "vset_inv s1" using a1 by (simp_all add: can_add_def can_send_def)
  have eq: "vset s1 = vset s" "vset_size s1 = vset_size s" using vset_size_io_only [OF io1] by simp_all
  have new: "\<not> in_vset s1 src" using assms(6) eq by (simp add: in_vset_def)
  have 2: "vset_should_add K src s1 = Some (1, tick (tick s1))"
    using vset_should_add_run [OF st assms(3), of src] new eq assms(7) by simp
  define u where "u = tick (tick s1)"
  have ust: "\<not> held u vrr_vset_lock" "vset_inv u" "\<not> in_vset u src"
    using st new vset_inv_io_only [of s1 u] by (simp_all add: u_def in_vset_def)
  define t0 where "t0 = (tick u)\<lparr>vset := \<lparr>vl_node = src, diff_left = left_of (ME u) src, diff_right = right_of (ME u) src\<rparr> # vset u,
     vset_size := vset_size u + 1\<rparr>"
  have ins: "insert_vset_node K src u = Some t0"
    using assms(2,7) eq by (simp add: insert_vset_node_run t0_def u_def INT_MAX_def)
  have inv0: "vset_inv t0" by (rule vset_inv_insert [OF ust(2,3) ins])
  have "vset_size t0 \<le> VRR_VSET_SIZE" using assms(7) eq by (simp add: t0_def u_def)
  then have add: "vset_add K src u = Some ((0, None), tick (tick t0))"
    using vset_add_new [OF assms(3) ust(2,1,3)] ins vset_bump_run [OF assms(3) inv0] by simp
  have run: "vrr_add K src k vs s = Some (1, tick (tick t0))"
    using v 1 2 add assms(4,5) by (simp add: vrr_add_def get_vrr_id_def arr_prefix_def u_def)
  have g: "tx_grows s (tick (tick t0))" using vrr_add_loop_tx [OF 1] by (simp add: tx_grows_def t0_def u_def tick_def)
  have o: "vset_inv (tick (tick t0)) \<and> vset_only s (tick (tick t0))"
    using vrr_add_effect [OF run assms(3)] assms(1) by (simp add: can_add_def can_send_def)
  show ?thesis
    by (rule that [OF run _ _ _ _ g]) (use o eq in \<open>simp_all add: in_vset_def t0_def u_def tick_def\<close>)
qed

section \<open>Installing a route\<close>

lemma rt_add_route_tx: "rt_add_route K a b c d p s = Some (r, t) \<Longrightarrow> tx (io t) = tx (io s)"
  by (auto simp: rt_add_route_def rt_add_block_def rt_find_insert_node_def kmalloc_def spin_lock_def spin_unlock_def run_simps Let_def
      split: if_splits)

lemma rt_add_route_ok:
  assumes "rb_keeps_order K" "net s" "\<forall>i. k_alloc K i"
  obtains t where "rt_add_route K e f n m p s = Some (1, t)" "net t" "tx (io t) = tx (io s)"
    "rt_routes (rt_root t) = route_added \<lparr>ea = e, eb = f, na = n, nb = m, path_id = p\<rparr> (rt_routes (rt_root s))"
    "t = s\<lparr>io := io t, rt_root := rt_root t\<rparr>"
proof -
  have st: "rt_inv s" "\<not> held s vrr_rt_lock" using assms(2) by (simp_all add: net_def)
  obtain u i where run: "rt_add_route K e f n m p s = Some (1, s\<lparr>io := i, rt_root := u\<rparr>)"
      "rt_routes u = route_added \<lparr>ea = e, eb = f, na = n, nb = m, path_id = p\<rparr> (rt_routes (rt_root s))"
    by (rule rt_add_route_run [OF assms(1) st, of e f n m p]) (use assms(3) in auto)
  then show ?thesis
    using that [OF run(1)] keepsD [OF rt_add_route_keeps [OF assms(1)] assms(2) run(1)] rt_add_route_tx [OF run(1)] by simp
qed

text \<open>The hop a setup for \<open>dst\<close> takes: the destination if it is a neighbour, else the next hop of the proxy.\<close>

definition setup_hop :: "'z core_globals_scheme \<Rightarrow> u32 \<Rightarrow> u32 \<Rightarrow> u32" where
  "setup_hop s dst proxy = (if link_status s dst = PSET_UNKNOWN then rt_search (ME s) (rt_root s) proxy else dst)"

lemma setup_next_hop_run: "unlocked s \<Longrightarrow> setup_next_hop dst proxy s = Some (setup_hop s dst proxy, s)"
  by (simp add: setup_next_hop_def setup_hop_def pset_get_status_run rt_get_next_run)

text \<open>The setup that follows, if its hop is a neighbour with a known address.\<close>

definition setup_sent :: "kenv \<Rightarrow> vrr_node \<Rightarrow> u32 \<Rightarrow> u32 list \<Rightarrow> pset_entry option \<Rightarrow> 'z kern_scheme \<Rightarrow> 'z kern_scheme \<Rightarrow> bool" where
  "setup_sent K n dst ws hop s t \<longleftrightarrow>
     (case hop of None \<Rightarrow> tx (io t) = tx (io s)
      | Some e \<Rightarrow> message K (vn_dev_list n) (msg_header n (vn_id n) dst VRR_SETUP (pl_mac e) (length ws)) ws s t)"

lemma can_send_root: "can_send (s\<lparr>io := i, rt_root := r\<rparr>) n = can_send s n"
  by (simp add: can_send_def unlocked_def pset_inv_def vset_inv_def)

lemma local_setup_run:
  fixes dst proxy :: u32
  assumes "rb_keeps_order K" "net s" "can_send s n" "vn_id n = ME s" "\<forall>i. k_alloc K i" "length vs = k" "4 * (k + 3) \<le> INT_MAX"
  defines "nh \<equiv> setup_hop s dst proxy"
  obtains t where "vrr_local_rcv_setup K dst pid proxy k vs s = Some (0, t)"
    "rt_routes (rt_root t) = route_added \<lparr>ea = ME s, eb = dst, na = ME s, nb = nh, path_id = pid\<rparr> (rt_routes (rt_root s))"
    "t = s\<lparr>io := io t, rt_root := rt_root t\<rparr>"
    "setup_sent K n dst ([pid, proxy, of_nat k] @ vs) (if nh = 0 then None else neighbour s nh) s t"
proof -
  have st: "unlocked s" "vrr s = Some n" using assms(3) by (simp_all add: can_send_def)
  have id: "get_vrr_id s = Some (ME s)" using st(2) assms(4) by (simp add: get_vrr_id_def)
  obtain s1 where 1: "rt_add_route K (ME s) dst (ME s) nh pid s = Some (1, s1)" "tx (io s1) = tx (io s)"
      "rt_routes (rt_root s1) = route_added \<lparr>ea = ME s, eb = dst, na = ME s, nb = nh, path_id = pid\<rparr> (rt_routes (rt_root s))"
      "s1 = s\<lparr>io := io s1, rt_root := rt_root s1\<rparr>"
    by (rule rt_add_route_ok [OF assms(1,2,5)])
  obtain i0 r0 where s1: "s1 = s\<lparr>io := i0, rt_root := r0\<rparr>" using 1(4) by blast
  have c1: "can_send s1 n" using assms(3) by (simp add: s1 can_send_root)
  then have u1: "unlocked s1" by (simp add: can_send_def)
  have nb: "neighbour s1 = neighbour s" by (simp add: s1 neighbour_def fun_eq_iff)
  have pre: "vrr_local_rcv_setup K dst pid proxy k vs s =
      (if nh \<noteq> 0 then do { (_, s) \<leftarrow> send_setup K (ME s) dst pid proxy k vs nh s1; Some (0, s) } else Some (0, s1))"
    using setup_next_hop_run [OF st(1), of dst proxy] 1(1) id by (simp add: vrr_local_rcv_setup_def nh_def)
  show ?thesis
  proof (cases "nh = 0 \<or> neighbour s nh = None")
    case True
    then have "vrr_local_rcv_setup K dst pid proxy k vs s = Some (0, s1)"
      using pre send_to_unknown(1) [OF u1 _ assms(7), of nh] nb by auto
    then show ?thesis using that 1(2-4) True by (auto simp: setup_sent_def)
  next
    case False
    then obtain e where e: "nh \<noteq> 0" "neighbour s nh = Some e" "neighbour s1 nh = Some e" using nb by auto
    let ?ws = "[pid, proxy, of_nat k] @ vs"
    obtain t where t: "alloc_and_output K ?ws (Some (ME s)) dst VRR_SETUP (pl_mac e) s1 = Some (0, t)" "io_only s1 t"
        "message K (vn_dev_list n) (msg_header n (ME s) dst VRR_SETUP (pl_mac e) (length ?ws)) ?ws s1 t"
      by (rule alloc_and_output_to [OF c1 assms(5) e(3)])
    have run: "vrr_local_rcv_setup K dst pid proxy k vs s = Some (0, t)"
      using pre e(1) send_to_neighbour_eq(1) [OF u1 e(3) assms(6,7)] t(1) by simp
    obtain i where i: "t = s1\<lparr>io := i\<rparr>" by (rule io_onlyE [OF t(2)])
    have "rt_root t = rt_root s1" "t = s\<lparr>io := io t, rt_root := rt_root t\<rparr>" by (simp_all add: i s1)
    moreover have "setup_sent K n dst ?ws (if nh = 0 then None else neighbour s nh) s t"
      using t(3) e(1,2) 1(2) assms(4) by (simp add: setup_sent_def message_def sent_def)
    ultimately show ?thesis using that [OF run] 1(3) by simp
  qed
qed

section \<open>A setup request at its destination\<close>

lemma io_only_sel:
  assumes "io_only s t"
  shows "setup_hop t d p = setup_hop s d p" "rt_root t = rt_root s" "ME t = ME s" "in_vset t x = in_vset s x"
proof -
  obtain i where "t = s\<lparr>io := i\<rparr>" by (rule io_onlyE [OF assms])
  then show "setup_hop t d p = setup_hop s d p" "rt_root t = rt_root s" "ME t = ME s" "in_vset t x = in_vset s x"
    by (simp_all add: setup_hop_def link_status_def neighbour_def in_vset_def)
qed

lemma vset_only_sel:
  assumes "vset_only s t"
  shows "setup_hop t d p = setup_hop s d p" "rt_root t = rt_root s" "ME t = ME s" "neighbour t = neighbour s" "vrr t = vrr s"
    "pset_inv t = pset_inv s" "unlocked t = unlocked s" "rt_inv t = rt_inv s"
proof -
  obtain i v n where "t = s\<lparr>io := i, vset := v, vset_size := n\<rparr>" by (rule vset_onlyE [OF assms])
  then show "setup_hop t d p = setup_hop s d p" "rt_root t = rt_root s" "ME t = ME s" "neighbour t = neighbour s" "vrr t = vrr s"
    "pset_inv t = pset_inv s" "unlocked t = unlocked s" "rt_inv t = rt_inv s"
    by (simp_all add: setup_hop_def link_status_def neighbour_def fun_eq_iff pset_inv_def unlocked_def rt_inv_def)
qed

lemma setup_req_read:
  assumes "sys_core s" "\<forall>i. k_alloc K i" "carries h ([proxy, of_nat k] @ vs) (skb_data skb)" "length vs = k" "k \<le> 4"
    and "rt_search_exclude (ME s) None (rt_root s) (dest_id h) (src_id h) = 0"
  obtains ovs u where "io_only s u" "tx (io u) = tx (io s)" "length ovs = vset_size s" "take (length (vset s)) ovs = map vl_node (vset s)"
    "vrr_rcv_setup_req K skb h s = do {
       (added, t) \<leftarrow> vrr_add K (src_id h) k vs u;
       if added \<noteq> 0 then do {
         let (pid, t) = vrr_new_path_id K t;
         (_, t) \<leftarrow> vrr_local_rcv_setup K (src_id h) pid proxy (vset_size s) ovs t;
         Some (0, t) }
       else do { (_, t) \<leftarrow> vrr_local_rcv_setup_fail K (src_id h) proxy (vset_size s) ovs t; Some (0, t) } }"
proof -
  let ?t = "tick (tick (tick s))"
  have w: "read_u32 skb sizeof_vrr_header o0 = proxy" "read_u32 skb (sizeof_vrr_header + 4) o1 = of_nat k" for o0 o1
    using carries_word [OF assms(3), of 0] carries_word [OF assms(3), of 1] by simp_all
  have r: "read_vset K skb (sizeof_vrr_header + 8) (of_nat k) 0 (tick s) = (Some (k, vs), ?t)"
    using read_vset_message [OF assms(2,3,4,5), of "sizeof_vrr_header + 8" 0 "tick s"] by auto
  have io3: "io_only s ?t" by (intro io_tick_io) simp
  have st: "\<not> held ?t vrr_vset_lock" "vset_inv ?t" "\<not> held (tick s) vrr_rt_lock" "vset_inv s"
    using assms(1) vset_inv_io_only [OF io3] by (simp_all add: sys_core_def net_def)
  define ovs where "ovs = map vl_node (vset s) @ map (k_junk K (Suc (clock (io ?t)))) [length (vset s)..<vset_size s]"
  have all: "vset_get_all K ?t = Some ((vset_size s, ovs), tick (tick ?t))"
    using vset_get_all_run [OF st(1,2), of K] assms(2) by (simp add: ovs_def)
  have ex: "rt_get_next_exclude (dest_id h) (src_id h) (tick s) = Some (0, tick s)"
    using rt_get_next_exclude_run [OF st(3), of "dest_id h" "src_id h"] assms(6) by (simp add: tick_def)
  have len: "length ovs = vset_size s" using st(4) by (simp add: ovs_def vset_inv_def)
  show ?thesis
    by (rule that [of "tick (tick ?t)" ovs, OF _ _ len])
      (use ex r all in \<open>simp_all add: vrr_rcv_setup_req_def uninit_def w io_tick_io Let_def\<close>, simp add: ovs_def)
qed

lemma setup_req_accepted:
  assumes "rb_keeps_order K" "sort_by_address K" "sys_core s" "\<forall>i. k_alloc K i"
    and "carries h ([proxy, of_nat k] @ vs) (skb_data skb)" "length vs = k" "k \<le> 4"
    and "rt_search_exclude (ME s) None (rt_root s) (dest_id h) (src_id h) = 0"
    and "src_id h \<noteq> UINT_MAX" "\<not> in_vset s (src_id h)" "vset_size s < VRR_VSET_SIZE" "vrr s = Some n"
  obtains pid ovs u t where "vrr_rcv_setup_req K skb h s = Some (0, t)" "in_vset t (src_id h)" "vset_size t = vset_size s + 1"
    "rt_routes (rt_root t) = route_added \<lparr>ea = ME s, eb = src_id h, na = ME s, nb = setup_hop s (src_id h) proxy, path_id = pid\<rparr>
       (rt_routes (rt_root s))"
    "length ovs = vset_size s" "take (length (vset s)) ovs = map vl_node (vset s)" "tx_grows s u" "pid \<in> range (k_random K)"
    "setup_sent K n (src_id h) ([pid, proxy, of_nat (vset_size s)] @ ovs)
       (let nh = setup_hop s (src_id h) proxy in if nh = 0 then None else neighbour s nh) u t"
proof -
  obtain ovs s1 where 1: "io_only s s1" "tx (io s1) = tx (io s)" "length ovs = vset_size s" "take (length (vset s)) ovs = map vl_node (vset s)"
    "vrr_rcv_setup_req K skb h s = do {
       (added, t) \<leftarrow> vrr_add K (src_id h) k vs s1;
       if added \<noteq> 0 then do {
         let (pid, t) = vrr_new_path_id K t;
         (_, t) \<leftarrow> vrr_local_rcv_setup K (src_id h) pid proxy (vset_size s) ovs t;
         Some (0, t) }
       else do { (_, t) \<leftarrow> vrr_local_rcv_setup_fail K (src_id h) proxy (vset_size s) ovs t; Some (0, t) } }"
    by (rule setup_req_read [OF assms(3-8)])
  have small: "4 * (vset_size s + 3) \<le> INT_MAX" using assms(11) by (simp add: INT_MAX_def)
  obtain n' where n': "can_add s n'" "vrr s = Some n'" "vn_id n' = ME s" by (rule sys_core_can_add [OF assms(3) small])
  have n: "can_add s1 n" "vn_id n = ME s" using n' assms(12) can_add_io_only [OF 1(1), of n] by simp_all
  note eq1 = io_only_sel [OF 1(1)] vset_size_io_only [OF 1(1)]
  obtain s2 where 2: "vrr_add K (src_id h) k vs s1 = Some (1, s2)" "vset_inv s2" "vset_only s1 s2" "in_vset s2 (src_id h)"
      "vset_size s2 = vset_size s1 + 1" "tx_grows s1 s2"
    by (rule vrr_add_new [OF n(1) assms(4,2), of k vs "src_id h"]) (use assms(6,9-11) eq1 in simp_all)
  define s3 where "s3 = tick s2"
  define pid where "pid = fst (vrr_new_path_id K s2)"
  have p: "vrr_new_path_id K s2 = (pid, s3)" by (simp add: pid_def s3_def vrr_new_path_id_def get_random_bytes_def)
  have net1: "net s1" using net_io [OF 1(1)] assms(3) by (simp add: sys_core_def)
  have io3: "io_only s2 s3" by (simp add: s3_def)
  have net3: "net s3" using net_io [OF io3] net_vset_only [OF 2(3,2) net1] by simp
  have "can_send s2 n" using n(1) 2(2) by (simp add: can_add_def can_send_def vset_only_sel [OF 2(3)])
  then have c3: "can_send s3 n" using can_send_io_only [OF io3] by simp
  note eq3 = io_only_sel [OF io3] vset_only_sel [OF 2(3)] eq1 neighbour_io_only [OF 1(1)] neighbour_io_only [OF io3]
  have len: "length ovs = vset_size s" "4 * (vset_size s + 3) \<le> INT_MAX" "vn_id n = ME s3" using 1(3) small n(2) eq3 by simp_all
  obtain t where t: "vrr_local_rcv_setup K (src_id h) pid proxy (vset_size s) ovs s3 = Some (0, t)"
      "rt_routes (rt_root t) = route_added \<lparr>ea = ME s3, eb = src_id h, na = ME s3, nb = setup_hop s3 (src_id h) proxy, path_id = pid\<rparr> (rt_routes (rt_root s3))"
      "t = s3\<lparr>io := io t, rt_root := rt_root t\<rparr>"
      "setup_sent K n (src_id h) ([pid, proxy, of_nat (vset_size s)] @ ovs)
         (if setup_hop s3 (src_id h) proxy = 0 then None else neighbour s3 (setup_hop s3 (src_id h) proxy)) s3 t"
    by (rule local_setup_run [OF assms(1) net3 c3 len(3) assms(4) len(1,2)])
  obtain i r where tr: "t = s3\<lparr>io := i, rt_root := r\<rparr>" using t(3) by blast
  have g: "tx_grows s s3" using 2(6) 1(2) by (simp add: tx_grows_def s3_def)
  show ?thesis
  proof (rule that [OF _ _ _ _ 1(3,4) g])
    show "pid \<in> range (k_random K)" by (simp add: pid_def vrr_new_path_id_def get_random_bytes_def)
    show "vrr_rcv_setup_req K skb h s = Some (0, t)" using 1(5) 2(1) p t(1) by simp
    show "in_vset t (src_id h)" "vset_size t = vset_size s + 1" using 2(4,5) eq1 by (simp_all add: tr s3_def in_vset_def)
    show "rt_routes (rt_root t) = route_added \<lparr>ea = ME s, eb = src_id h, na = ME s, nb = setup_hop s (src_id h) proxy, path_id = pid\<rparr>
       (rt_routes (rt_root s))" using t(2) by (simp add: eq3)
    show "setup_sent K n (src_id h) ([pid, proxy, of_nat (vset_size s)] @ ovs)
       (let nh = setup_hop s (src_id h) proxy in if nh = 0 then None else neighbour s nh) s3 t"
      using t(4) unfolding eq3 Let_def .
  qed
qed

section \<open>A setup at its destination\<close>

lemma sys_core_net: "sys_core s \<Longrightarrow> net s"
  by (simp add: sys_core_def)

text \<open>
  What every setup does first: the sender is identified, the route recorded and the virtual set read. The
  setup then goes on to the hop, or the node takes the source in.
\<close>

definition setup_exit :: "'z core_globals_scheme \<Rightarrow> u32 \<Rightarrow> u32 \<Rightarrow> u32" where
  "setup_exit s dst proxy = (if dst = ME s \<and> link_status s dst = PSET_UNKNOWN then 0 else setup_hop s dst proxy)"

lemma setup_recorded:
  fixes proxy :: u32
  assumes "rb_keeps_order K" "sys_core s" "\<forall>i. k_alloc K i"
    and "carries h ([pid, proxy, of_nat k] @ vs) (skb_data skb)" "length vs = k" "k \<le> 4" "skb_dev_addr skb \<noteq> skb_src_mac skb"
    and "first_match (\<lambda>e. skb_src_mac skb = pl_mac e) (pset s) = Some e"
  defines "nh \<equiv> setup_exit s (dest_id h) proxy"
  obtains u where "net u" "tx (io u) = tx (io s)" "u = s\<lparr>io := io u, rt_root := rt_root u\<rparr>"
    "rt_routes (rt_root u) = route_added \<lparr>ea = src_id h, eb = dest_id h, na = pl_node e, nb = nh, path_id = pid\<rparr> (rt_routes (rt_root s))"
    "vrr_rcv_setup K skb h s =
       (if nh \<noteq> 0 then do { (_, t) \<leftarrow> send_setup K (src_id h) (dest_id h) pid proxy k vs nh u; Some (0, t) }
        else do {
          (added, t) \<leftarrow> vrr_add K (src_id h) k vs u;
          if added \<noteq> 0 then do { me \<leftarrow> vrr_get_node t; Some (0, t\<lparr>vrr := Some (me\<lparr>vn_active := 1\<rparr>)\<rparr>) }
          else Some (0, t) })"
proof -
  let ?s1 = "tick s"
  have w: "read_u32 skb sizeof_vrr_header o0 = pid" "read_u32 skb (sizeof_vrr_header + 4) o1 = proxy"
      "read_u32 skb (sizeof_vrr_header + 8) o2 = of_nat k" for o0 o1 o2
    using carries_word [OF assms(4), of 0] carries_word [OF assms(4), of 1] carries_word [OF assms(4), of 2] by simp_all
  obtain n where n: "vrr s = Some n" "vn_id n = ME s" using sys_core_can_send [OF assms(2)] by auto
  have net1: "net ?s1" using net_io [OF io_only_tick sys_core_net [OF assms(2)]] .
  have l1: "\<not> held ?s1 vrr_pset_lock" "\<not> held ?s1 vrr_rt_lock" using assms(2) by (simp_all add: sys_core_def net_def)
  have q: "pset_lookup_mac (skb_src_mac skb) ?s1 = Some (Some (pl_node e), ?s1)"
      "pset_get_status (dest_id h) ?s1 = Some (link_status s (dest_id h), ?s1)"
      "rt_get_next proxy ?s1 = Some (rt_search (ME s) (rt_root s) proxy, ?s1)"
    using assms(8) by (simp_all add: pset_lookup_mac_run [OF l1(1)] pset_get_status_run [OF l1(1)] rt_get_next_run [OF l1(2)] link_status_def)
      (simp add: tick_def)
  have hop: "nh = (if link_status s (dest_id h) = PSET_UNKNOWN
      then (if dest_id h = ME s then 0 else rt_search (ME s) (rt_root s) proxy) else dest_id h)"
    by (simp add: nh_def setup_exit_def setup_hop_def)
  obtain s2 where 2: "rt_add_route K (src_id h) (dest_id h) (pl_node e) nh pid ?s1 = Some (1, s2)" "net s2" "tx (io s2) = tx (io ?s1)"
      "rt_routes (rt_root s2) = route_added \<lparr>ea = src_id h, eb = dest_id h, na = pl_node e, nb = nh, path_id = pid\<rparr> (rt_routes (rt_root ?s1))"
      "s2 = ?s1\<lparr>io := io s2, rt_root := rt_root s2\<rparr>"
    by (rule rt_add_route_ok [OF assms(1) net1 assms(3)])
  obtain i2 r2 where s2: "s2 = ?s1\<lparr>io := i2, rt_root := r2\<rparr>" using 2(5) by blast
  define u where "u = tick (tick s2)"
  have r: "read_vset K skb (sizeof_vrr_header + 12) (of_nat k) 0 s2 = (Some (k, vs), u)"
    using read_vset_message [OF assms(3,4,5,6), of "sizeof_vrr_header + 12" 0 s2] by (auto simp: u_def)
  have io: "io_only s2 u" by (simp add: u_def io_tick_io)
  show ?thesis
  proof (rule that [OF net_io [OF io 2(2)]])
    show "vrr_rcv_setup K skb h s =
       (if nh \<noteq> 0 then do { (_, t) \<leftarrow> send_setup K (src_id h) (dest_id h) pid proxy k vs nh u; Some (0, t) }
        else do {
          (added, t) \<leftarrow> vrr_add K (src_id h) k vs u;
          if added \<noteq> 0 then do { me \<leftarrow> vrr_get_node t; Some (0, t\<lparr>vrr := Some (me\<lparr>vn_active := 1\<rparr>)\<rparr>) }
          else Some (0, t) })"
      using assms(7) n q 2(1) r hop
      by (cases "link_status s (dest_id h) = PSET_UNKNOWN"; cases "dest_id h = ME s")
        (simp_all add: vrr_rcv_setup_def uninit_def w Let_def vrr_get_node_def)
  qed (use 2(3,4) in \<open>simp_all add: u_def s2 tick_def\<close>)
qed

lemma can_add_root: "can_add (s\<lparr>io := i, rt_root := r\<rparr>) n = can_add s n"
  by (simp add: can_add_def can_send_root proxies_def)

lemma setup_accepted:
  assumes "rb_keeps_order K" "sort_by_address K" "sys_core s" "\<forall>i. k_alloc K i"
    and "carries h ([pid, proxy, of_nat k] @ vs) (skb_data skb)" "length vs = k" "k \<le> 4"
    and "dest_id h = ME s" "link_status s (ME s) = PSET_UNKNOWN" "skb_dev_addr skb \<noteq> skb_src_mac skb"
    and "first_match (\<lambda>e. skb_src_mac skb = pl_mac e) (pset s) = Some e"
    and "src_id h \<noteq> UINT_MAX" "\<not> in_vset s (src_id h)" "vset_size s < VRR_VSET_SIZE" "vrr s = Some n"
  obtains t where "vrr_rcv_setup K skb h s = Some (0, t)" "in_vset t (src_id h)" "vset_size t = vset_size s + 1"
    "rt_routes (rt_root t) = route_added \<lparr>ea = src_id h, eb = ME s, na = pl_node e, nb = 0, path_id = pid\<rparr> (rt_routes (rt_root s))"
    "vrr t = Some (n\<lparr>vn_active := 1\<rparr>)"
proof -
  have x: "setup_exit s (dest_id h) proxy = 0" using assms(8,9) by (simp add: setup_exit_def)
  obtain u where u: "u = s\<lparr>io := io u, rt_root := rt_root u\<rparr>"
      "rt_routes (rt_root u) = route_added \<lparr>ea = src_id h, eb = dest_id h, na = pl_node e, nb = 0, path_id = pid\<rparr> (rt_routes (rt_root s))"
    and eq: "vrr_rcv_setup K skb h s = do {
          (added, t) \<leftarrow> vrr_add K (src_id h) k vs u;
          if added \<noteq> 0 then do { me \<leftarrow> vrr_get_node t; Some (0, t\<lparr>vrr := Some (me\<lparr>vn_active := 1\<rparr>)\<rparr>) }
          else Some (0, t) }"
    by (rule setup_recorded [OF assms(1,3,4,5,6,7,10,11), unfolded x]) (rule that, assumption+, simp)
  obtain i r where ur: "u = s\<lparr>io := i, rt_root := r\<rparr>" using u(1) by blast
  have small: "4 * (vset_size s + 3) \<le> INT_MAX" using assms(14) by (simp add: INT_MAX_def)
  have "can_add s n" using sys_core_can_add [OF assms(3) small] assms(15) by auto
  then have "can_add u n" by (simp add: ur can_add_root)
  then obtain v where v: "vrr_add K (src_id h) k vs u = Some (1, v)" "vset_only u v" "in_vset v (src_id h)" "vset_size v = vset_size u + 1"
    by (rule vrr_add_new [OF _ assms(4,2), of u n k vs "src_id h"]) (use assms(6,12-14) in \<open>simp_all add: ur in_vset_def\<close>)
  have vv: "vrr v = Some n" "rt_root v = rt_root u" "vset_size u = vset_size s" using assms(15) by (simp_all add: vset_only_sel [OF v(2)] ur)
  have "vrr_rcv_setup K skb h s = Some (0, v\<lparr>vrr := Some (n\<lparr>vn_active := 1\<rparr>)\<rparr>)" using eq v(1) vv(1) by (simp add: vrr_get_node_def)
  then show ?thesis using that u(2) v(3,4) vv assms(8) by (simp add: in_vset_def)
qed

section \<open>From the dispatcher\<close>

lemma heard_lookup_mac:
  "map_option pl_node (first_match (\<lambda>e. m = pl_mac e) (pset (heard x s))) = map_option pl_node (first_match (\<lambda>e. m = pl_mac e) (pset s))"
proof -
  have "map_option pl_node (first_match (\<lambda>e. m = pl_mac e) (upd_first (\<lambda>e. pl_node e = x) (\<lambda>e. e\<lparr>fail_count := 0\<rparr>) es))
      = map_option pl_node (first_match (\<lambda>e. m = pl_mac e) es)" for es
    by (induction es) simp_all
  then show ?thesis by (simp add: heard_def)
qed

lemma heard_setup_hop [simp]: "setup_hop (heard x s) d p = setup_hop s d p"
  by (simp add: setup_hop_def)

text \<open>The next hop towards a new endpoint, right after the first route to it was added.\<close>

lemma first_route:
  assumes "rt_routes (rt_root t) = route_added \<lparr>ea = e, eb = f, na = n, nb = m, path_id = p\<rparr> T" "T d = None" "d \<noteq> ME t"
    and "e \<noteq> 0" "f \<noteq> 0" "e \<noteq> f" "p \<noteq> 0" "d = e \<or> d = f"
  shows "rt_search (ME t) (rt_root t) d = (if d = e then n else m)"
proof -
  define r where "r = \<lparr>ea = e, eb = f, na = n, nb = m, path_id = p\<rparr>"
  have "rt_routes (rt_root t) d = Some [r]" using assms by (auto simp: route_added_def table_add_def r_def)
  then show ?thesis using route_list_search_newest [of r "[]" d "ME t"] assms(3-8) by (auto simp: rt_search_routes r_def)
qed

lemma vrr_rcv_setup_req_eq:
  assumes "sys_inv s" "vrr_hdr skb = Some h" "pkt_type h = VRR_SETUP_REQ"
    and "vrr_rcv_setup_req K skb h (heard (src_id h) s) = Some (0, t)"
  shows "vrr_rcv K R skb s = Some (NET_RX_SUCCESS, t)"
  using vrr_rcv_dispatch(2) [OF assms(1,2), of K R] assms(3,4) by (simp add: vrr_rcvfunc_def word_less_nat_alt)

lemma vrr_rcv_setup_eq:
  assumes "sys_inv s" "vrr_hdr skb = Some h" "pkt_type h = VRR_SETUP"
    and "vrr_rcv_setup K skb h (heard (src_id h) s) = Some (0, t)"
  shows "vrr_rcv K R skb s = Some (NET_RX_SUCCESS, t)"
  using vrr_rcv_dispatch(2) [OF assms(1,2), of K R] assms(3,4) by (simp add: vrr_rcvfunc_def word_less_nat_alt)

text \<open>A node that can take part in setting up a path to \<open>x\<close>: \<open>x\<close> is new to it and its virtual set has room.\<close>

definition ready_for :: "u32 \<Rightarrow> 'z input_globals_scheme \<Rightarrow> bool" where
  "ready_for x s \<longleftrightarrow> sys_inv s \<and> x \<noteq> ME s \<and> x \<noteq> 0 \<and> x \<noteq> UINT_MAX \<and> ME s \<noteq> 0 \<and> rt_routes (rt_root s) x = None
     \<and> \<not> in_vset s x \<and> vset_size s < VRR_VSET_SIZE"

lemma search_exclude_own:
  "rt_ordered t \<Longrightarrow> rt_routes t x = None \<Longrightarrow> rt_search_exclude me prev t x x = 0"
proof (induction t arbitrary: prev)
  case (Node l a r)
  have "rt_ordered l" "rt_ordered r" using Node.prems(1) by (auto simp: rt_ordered_def sorted_wrt_append)
  then show ?case using Node by (auto split: if_splits)
qed simp

lemma request_served:
  assumes "rb_keeps_order K" "sort_by_address K" "\<forall>i. k_alloc K i" "\<forall>i. k_random K i \<noteq> 0" "ready_for (src_id h) s"
    and "carries h ([proxy, of_nat k] @ vs) (skb_data skb)" "length vs = k" "k \<le> 4" "pkt_type h = VRR_SETUP_REQ" "dest_id h = src_id h"
    and "neighbour s (src_id h) = Some e"
  obtains pid ovs u t n where "vrr_rcv K R skb s = Some (NET_RX_SUCCESS, t)" "sys_inv t" "in_vset t (src_id h)"
    "rt_get_next (src_id h) t = Some (src_id h, t)" "tx_grows s u" "length ovs = vset_size s" "vrr s = Some n" "pid \<noteq> 0"
    "message K (vn_dev_list n) (msg_header n (ME s) (src_id h) VRR_SETUP (pl_mac e) (vset_size s + 3))
       ([pid, proxy, of_nat (vset_size s)] @ ovs) u t"
proof -
  let ?x = "src_id h" let ?s = "heard ?x s"
  have hd: "vrr_hdr skb = Some h" by (rule carries_hdr [OF assms(6)])
  have rd: "sys_inv s" "?x \<noteq> ME s" "?x \<noteq> 0" "?x \<noteq> UINT_MAX" "ME s \<noteq> 0" "rt_routes (rt_root s) ?x = None" "\<not> in_vset s ?x"
      "vset_size s < VRR_VSET_SIZE" using assms(5) by (simp_all add: ready_for_def)
  have lt: "pkt_type h < VRR_NPTYPES" using assms(9) by (simp add: word_less_nat_alt)
  have inv: "sys_inv ?s" by (rule vrr_rcv_dispatch(1) [OF rd(1) hd lt])
  then have core: "sys_core ?s" by (simp add: sys_inv_def)
  obtain n where n: "vrr s = Some n" "vn_id n = ME s" using rd(1) by (auto simp: sys_inv_def elim: sys_core_can_send)
  let ?n = "n\<lparr>vn_timeout := 0\<rparr>"
  have hop: "setup_hop s ?x proxy = ?x"
    using assms(11) rd(1) by (auto simp: setup_hop_def sys_inv_def sys_core_def dest: link_status_new)
  obtain e' where e': "neighbour ?s ?x = Some e'" "pl_mac e' = pl_mac e" using assms(11) by (simp add: heard_neighbour)
  have "rt_ordered (rt_root s)" using rd(1) by (simp add: sys_inv_def sys_core_def net_def rt_inv_def)
  then have ex: "rt_search_exclude (ME ?s) None (rt_root ?s) (dest_id h) ?x = 0"
    using search_exclude_own rd(6) assms(10) by simp
  have vn: "vrr ?s = Some ?n" using n(1) by simp
  obtain pid ovs u t where t: "vrr_rcv_setup_req K skb h ?s = Some (0, t)" "in_vset t ?x"
    "rt_routes (rt_root t) = route_added \<lparr>ea = ME ?s, eb = ?x, na = ME ?s, nb = setup_hop ?s ?x proxy, path_id = pid\<rparr> (rt_routes (rt_root ?s))"
    "length ovs = vset_size ?s" "tx_grows ?s u" "pid \<in> range (k_random K)"
    "setup_sent K ?n ?x ([pid, proxy, of_nat (vset_size ?s)] @ ovs)
       (let nh = setup_hop ?s ?x proxy in if nh = 0 then None else neighbour ?s nh) u t"
    by (rule setup_req_accepted [OF assms(1,2) core assms(3,6,7,8) ex rd(4) _ _ vn]) (use rd(7,8) in simp_all)
  have run: "vrr_rcv K R skb s = Some (NET_RX_SUCCESS, t)" by (rule vrr_rcv_setup_req_eq [OF rd(1) hd assms(9) t(1)])
  have kp: "net t \<and> routing_only ?s t"
    using keepsD [OF rcv_setup_req_keeps [OF assms(1,2)] _ t(1)] core by (simp add: sys_core_def)
  have it: "sys_inv t" by (rule sys_inv_keeps [OF sys_keeps_net [OF rcv_setup_req_keeps [OF assms(1,2)]] inv t(1)])
  have me: "ME t = ME s" using kp by (auto elim!: routing_onlyE)
  have p: "pid \<noteq> 0" using t(6) assms(4) by auto
  have "rt_search (ME t) (rt_root t) ?x = ?x"
    using first_route [OF t(3), of ?x] rd(2,3,5,6) p me hop by simp
  then have nx: "rt_get_next ?x t = Some (?x, t)" using kp by (simp add: rt_get_next_run net_def)
  have "message K (vn_dev_list n) (msg_header n (ME s) ?x VRR_SETUP (pl_mac e) (vset_size s + 3))
       ([pid, proxy, of_nat (vset_size s)] @ ovs) u t"
    using t(4,7) e' hop rd(3) n(2) by (simp add: setup_sent_def Let_def msg_header_def header_for_def add.commute)
  then show ?thesis using that [OF run it t(2) nx _ _ n(1) p] t(4,5) by (simp add: tx_grows_def)
qed

lemma setup_completed:
  assumes "rb_keeps_order K" "sort_by_address K" "\<forall>i. k_alloc K i" "ready_for (src_id h) s"
    and "carries h ([pid, proxy, of_nat k] @ vs) (skb_data skb)" "length vs = k" "k \<le> 4" "pkt_type h = VRR_SETUP" "dest_id h = ME s" "pid \<noteq> 0"
    and "link_status s (ME s) = PSET_UNKNOWN" "skb_dev_addr skb \<noteq> skb_src_mac skb"
    and "pset_lookup_mac (skb_src_mac skb) s = Some (Some x, s)"
  obtains t n where "vrr_rcv K R skb s = Some (NET_RX_SUCCESS, t)" "sys_inv t" "in_vset t (src_id h)"
    "rt_get_next (src_id h) t = Some (x, t)" "vrr t = Some n" "vn_active n = 1"
proof -
  let ?x = "src_id h" let ?s = "heard ?x s"
  have hd: "vrr_hdr skb = Some h" by (rule carries_hdr [OF assms(5)])
  have rd: "sys_inv s" "?x \<noteq> ME s" "?x \<noteq> 0" "?x \<noteq> UINT_MAX" "ME s \<noteq> 0" "rt_routes (rt_root s) ?x = None" "\<not> in_vset s ?x"
      "vset_size s < VRR_VSET_SIZE" using assms(4) by (simp_all add: ready_for_def)
  have lt: "pkt_type h < VRR_NPTYPES" using assms(8) by (simp add: word_less_nat_alt)
  have inv: "sys_inv ?s" by (rule vrr_rcv_dispatch(1) [OF rd(1) hd lt])
  then have core: "sys_core ?s" by (simp add: sys_inv_def)
  obtain n where n: "vrr s = Some n" using rd(1) by (auto simp: sys_inv_def elim: sys_core_can_send)
  have "\<not> held s vrr_pset_lock" using rd(1) by (simp add: sys_inv_def sys_core_def net_def)
  then have "map_option pl_node (first_match (\<lambda>e. skb_src_mac skb = pl_mac e) (pset ?s)) = Some x"
    using assms(13) by (simp add: pset_lookup_mac_run heard_lookup_mac)
  then obtain e where e: "first_match (\<lambda>e. skb_src_mac skb = pl_mac e) (pset ?s) = Some e" "pl_node e = x" by auto
  have vn: "vrr ?s = Some (n\<lparr>vn_timeout := 0\<rparr>)" using n by simp
  obtain t where t: "vrr_rcv_setup K skb h ?s = Some (0, t)" "in_vset t ?x"
      "rt_routes (rt_root t) = route_added \<lparr>ea = ?x, eb = ME ?s, na = pl_node e, nb = 0, path_id = pid\<rparr> (rt_routes (rt_root ?s))"
      "vrr t = Some (n\<lparr>vn_timeout := 0, vn_active := 1\<rparr>)"
    by (rule setup_accepted [OF assms(1,2) core assms(3,5,6,7) _ _ assms(12) e(1) rd(4) _ _ vn]) (use rd(7,8) assms(9,11) in simp_all)
  have run: "vrr_rcv K R skb s = Some (NET_RX_SUCCESS, t)" by (rule vrr_rcv_setup_eq [OF rd(1) hd assms(8) t(1)])
  have it: "sys_inv t" by (rule sys_inv_keeps [OF rcv_setup_keeps [OF assms(1,2)] inv t(1)])
  obtain m where m: "vrr t = Some m" "vn_id m = ME t" using it by (auto simp: sys_inv_def elim: sys_core_can_send)
  have me: "ME t = ME s"
    using m t(4) n rd(1) by (auto simp: sys_inv_def sys_core_def core_inv_def node_ok_def)
  have "rt_search (ME t) (rt_root t) ?x = x" using first_route [OF t(3), of ?x] rd(2,3,5,6) assms(10) me e(2) by simp
  moreover have "\<not> held t vrr_rt_lock" using it by (simp add: sys_inv_def sys_core_def net_def)
  ultimately have "rt_get_next ?x t = Some (x, t)" by (simp add: rt_get_next_run)
  then show ?thesis using that [OF run it t(2) _ t(4)] by simp
qed

lemma ready_for_io:
  assumes "io_only s t" "ready_for x s"
  shows "ready_for x t"
proof -
  have "sys_inv t" using sys_inv_io [OF assms(1)] assms(2) by (simp add: ready_for_def)
  then show ?thesis
    using assms(2) io_only_sel [OF assms(1)] vset_size_io_only [OF assms(1)] by (simp add: ready_for_def)
qed

text \<open>The answer to a request, received by the node that asked.\<close>

lemma answer_received:
  assumes "rb_keeps_order KA" "sort_by_address KA" "\<forall>i. k_alloc KA i" "ready_for b s" "link_status s (ME s) = PSET_UNKNOWN"
    and "carries (msg_header nB b (ME s) VRR_SETUP m l) ([pid, proxy, of_nat k] @ vs) (skb_data answer)" "length vs = k" "k \<le> 4" "pid \<noteq> 0"
    and "skb_dev_addr answer \<noteq> skb_src_mac answer" "pset_lookup_mac (skb_src_mac answer) s = Some (Some b, s)"
  shows "\<exists>t n. vrr_rcv KA RA answer s = Some (NET_RX_SUCCESS, t) \<and> sys_inv t \<and> in_vset t b
     \<and> rt_get_next b t = Some (b, t) \<and> vrr t = Some n \<and> vn_active n = 1"
proof -
  have r: "ready_for (src_id (msg_header nB b (ME s) VRR_SETUP m l)) s" using assms(4) by simp
  show ?thesis
    by (rule setup_completed [OF assms(1-3) r assms(6-8) _ _ assms(9,5,10,11), of RA]) auto
qed

section \<open>Properties\<close>

text \<open>
  C2: joining over a neighbour. A node \<open>A\<close> asks a neighbour \<open>B\<close> to connect it, with the request the update
  handler sends to a newly linked active neighbour. If each is new to the other and has room in its
  virtual set, then \<open>B\<close>, on receiving the request, takes \<open>A\<close> into its virtual set, routes to \<open>A\<close> directly
  and answers with a setup; and when \<open>A\<close> receives that answer it has \<open>B\<close> in its virtual set, routes to \<open>B\<close>
  over the neighbour it came from and is active. No step has undefined behaviour.
\<close>

theorem join_over_neighbour:
  fixes sA :: "'a input_globals_scheme" and sB :: "'b input_globals_scheme"
  assumes "rb_keeps_order KA" "sort_by_address KA" "\<forall>i. k_alloc KA i" "rb_keeps_order KB" "sort_by_address KB" "\<forall>i. k_alloc KB i"
    and "\<forall>i. k_random KB i \<noteq> 0" "ready_for (ME sB) sA" "ready_for (ME sA) sB" "neighbour sB (ME sA) = Some eA"
    and "link_status sA (ME sA) = PSET_UNKNOWN"
  shows "\<exists>sA' fs. send_setup_req KA (ME sA) (ME sA) (ME sB) sA = Some (0, sA') \<and> tx (io sA') = tx (io sA) @ fs
     \<and> (\<forall>f \<in> set fs. \<forall>skb. skb_data skb = fr_data f \<longrightarrow>
         (\<exists>sB' pre gs. vrr_rcv KB RB skb sB = Some (NET_RX_SUCCESS, sB') \<and> sys_inv sB' \<and> in_vset sB' (ME sA)
            \<and> rt_get_next (ME sA) sB' = Some (ME sA, sB') \<and> tx (io sB') = tx (io sB) @ pre @ gs
            \<and> (\<forall>n. vrr sB = Some n \<longrightarrow> map fr_dev gs = live KB (vn_dev_list n))
            \<and> (\<forall>g \<in> set gs. fr_dest g = pl_mac eA \<and> (\<forall>answer. skb_data answer = fr_data g \<and> skb_dev_addr answer \<noteq> skb_src_mac answer
                 \<and> pset_lookup_mac (skb_src_mac answer) sA' = Some (Some (ME sB), sA') \<longrightarrow>
                (\<exists>sA'' n. vrr_rcv KA RA answer sA' = Some (NET_RX_SUCCESS, sA'') \<and> sys_inv sA'' \<and> in_vset sA'' (ME sB)
                   \<and> rt_get_next (ME sB) sA'' = Some (ME sB, sA'') \<and> vrr sA'' = Some n \<and> vn_active n = 1)))))"
proof -
  have rA: "sys_inv sA" "vset_size sA < VRR_VSET_SIZE" and rB: "vset_size sB < VRR_VSET_SIZE" using assms(8,9) by (simp_all add: ready_for_def)
  obtain n where n: "can_send sA n" "vn_id n = ME sA" using rA(1) by (auto simp: sys_inv_def elim: sys_core_can_send)
  let ?hA = "msg_header n (ME sA) (ME sA) VRR_SETUP_REQ (req_mac KA (ME sB) sA) (vset_size sA + 2)"
  obtain vs sA' where a: "send_setup_req KA (ME sA) (ME sA) (ME sB) sA = Some (0, sA')" "io_only sA sA'"
      "message KA (vn_dev_list n) ?hA ([ME sB, of_nat (vset_size sA)] @ vs) sA sA'" "length vs = vset_size sA"
    by (rule send_setup_req_run [OF n(1) assms(3), of "ME sA" "ME sA" "ME sB"]) (use rA(2) in \<open>auto simp: INT_MAX_def\<close>)
  obtain fs where fs: "tx (io sA') = tx (io sA) @ fs" "\<forall>f \<in> set fs. carries ?hA ([ME sB, of_nat (vset_size sA)] @ vs) (fr_data f)"
    by (rule message_frames [OF a(3)]) blast
  have rA': "ready_for (ME sB) sA'" by (rule ready_for_io [OF a(2) assms(8)])
  have meA: "ME sA' = ME sA" and stA: "link_status sA' (ME sA') = PSET_UNKNOWN"
    using assms(11) io_only_sel(3) [OF a(2)] link_status_io_only [OF a(2)] by simp_all
  have "\<exists>sB' pre gs. vrr_rcv KB RB skb sB = Some (NET_RX_SUCCESS, sB') \<and> sys_inv sB' \<and> in_vset sB' (ME sA)
            \<and> rt_get_next (ME sA) sB' = Some (ME sA, sB') \<and> tx (io sB') = tx (io sB) @ pre @ gs
            \<and> (\<forall>n. vrr sB = Some n \<longrightarrow> map fr_dev gs = live KB (vn_dev_list n))
            \<and> (\<forall>g \<in> set gs. fr_dest g = pl_mac eA \<and> (\<forall>answer. skb_data answer = fr_data g \<and> skb_dev_addr answer \<noteq> skb_src_mac answer
                 \<and> pset_lookup_mac (skb_src_mac answer) sA' = Some (Some (ME sB), sA') \<longrightarrow>
                (\<exists>sA'' n. vrr_rcv KA RA answer sA' = Some (NET_RX_SUCCESS, sA'') \<and> sys_inv sA'' \<and> in_vset sA'' (ME sB)
                   \<and> rt_get_next (ME sB) sA'' = Some (ME sB, sA'') \<and> vrr sA'' = Some n \<and> vn_active n = 1)))"
    if d: "skb_data skb = fr_data f" "f \<in> set fs" for f skb
  proof -
    have c: "carries ?hA ([ME sB, of_nat (vset_size sA)] @ vs) (skb_data skb)" using fs(2) d by simp
    obtain pid ovs u t nB where b: "vrr_rcv KB RB skb sB = Some (NET_RX_SUCCESS, t)" "sys_inv t" "in_vset t (src_id ?hA)"
        "rt_get_next (src_id ?hA) t = Some (src_id ?hA, t)" "tx_grows sB u" "length ovs = vset_size sB" "vrr sB = Some nB" "pid \<noteq> 0"
        "message KB (vn_dev_list nB) (msg_header nB (ME sB) (src_id ?hA) VRR_SETUP (pl_mac eA) (vset_size sB + 3))
           ([pid, ME sB, of_nat (vset_size sB)] @ ovs) u t"
      by (rule request_served [OF assms(4-7) _ c a(4), of sB eA RB]) (use assms(9,10) rA(2) in auto)
    obtain gs where gs: "tx (io t) = tx (io u) @ gs"
        "\<forall>g \<in> set gs. carries (msg_header nB (ME sB) (ME sA) VRR_SETUP (pl_mac eA) (vset_size sB + 3))
           ([pid, ME sB, of_nat (vset_size sB)] @ ovs) (fr_data g) \<and> fr_dest g = pl_mac eA"
        "map fr_dev gs = live KB (vn_dev_list nB)"
      by (rule message_frames [OF b(9)]) (use assms(6) in simp)
    obtain pre where pre: "tx (io u) = tx (io sB) @ pre" using b(5) by (auto simp: tx_grows_def)
    have ans: "\<exists>sA'' n. vrr_rcv KA RA answer sA' = Some (NET_RX_SUCCESS, sA'') \<and> sys_inv sA'' \<and> in_vset sA'' (ME sB)
                   \<and> rt_get_next (ME sB) sA'' = Some (ME sB, sA'') \<and> vrr sA'' = Some n \<and> vn_active n = 1"
      if "g \<in> set gs" "skb_data answer = fr_data g" "skb_dev_addr answer \<noteq> skb_src_mac answer"
        "pset_lookup_mac (skb_src_mac answer) sA' = Some (Some (ME sB), sA')" for g answer
    proof -
      have ca: "carries (msg_header nB (ME sB) (ME sA') VRR_SETUP (pl_mac eA) (vset_size sB + 3))
           ([pid, ME sB, of_nat (vset_size sB)] @ ovs) (skb_data answer)" using gs(2) that(1,2) meA by simp
      show ?thesis by (rule answer_received [OF assms(1-3) rA' stA ca b(6) _ b(8) that(3,4)]) (use rB in simp)
    qed
    show ?thesis
      using b(1-4,7) gs pre ans by (intro exI [of _ t] exI [of _ pre] exI [of _ gs]) auto
  qed
  then show ?thesis using a(1) fs(1) by blast
qed

definition demo_joiner :: input_globals where
  "demo_joiner = demo_peer\<lparr>pset := [demo_entry 5 PSET_FAILED], pset_size := 1\<rparr>"

definition nine_env :: kenv where
  "nine_env = demo_env\<lparr>k_random := (\<lambda>i. 9)\<rparr>"

lemma nine_env_ok [simp]: "rb_keeps_order nine_env" "sort_by_address nine_env" "k_alloc nine_env i" "k_random nine_env i = 9"
  "k_dev nine_env d = k_dev demo_env d"
  using demo_env_laws by (simp_all add: nine_env_def rb_keeps_order_def sort_by_address_def)

lemma demo_joiner_ok [simp]: "sys_inv demo_joiner"
proof -
  have p: "pset_inv demo_joiner" by (simp add: demo_joiner_def pset_inv_def entry_ok_def demo_entry_def INT_MAX_def)
  have "mirrors fresh_ps [demo_entry 5 PSET_FAILED]" using fresh_ps_ok(2) by (simp add: mirrors_def demo_entry_def link_class_defs)
  then have "core_inv demo_joiner"
    using demo_peer_ok fresh_ps_ok(1)
    by (auto simp: demo_joiner_def core_inv_def pstate_ok_def node_ok_def demo_peer_def sys_inv_def sys_core_def)
  then show ?thesis
    using demo_peer_ok p by (simp add: demo_joiner_def sys_inv_def sys_core_def work_ok_def net_def unlocked_def rt_inv_def vset_inv_def
        socks_inv_def updates_ok_def)
qed

lemma demo_join_ready: "ready_for 5 demo_joiner" "ready_for 7 demo_input" "ME demo_joiner = 7" "ME demo_input = 5"
  "link_status demo_joiner 7 = PSET_UNKNOWN" "neighbour demo_input 7 = Some (demo_entry 7 PSET_LINKED)"
proof -
  have eq: "rt_root demo_joiner = \<langle>\<rangle>" "vset demo_joiner = []" "vset_size demo_joiner = 0" "ME demo_joiner = 7"
      "rt_root demo_input = \<langle>\<rangle>" "vset demo_input = []" "vset_size demo_input = 0" "ME demo_input = 5"
    by (simp_all add: demo_joiner_def demo_peer_def demo_input_defs)
  then show "ready_for 5 demo_joiner" "ready_for 7 demo_input" "ME demo_joiner = 7" "ME demo_input = 5"
    by (simp_all add: ready_for_def in_vset_def UINT_MAX_def)
  show "link_status demo_joiner 7 = PSET_UNKNOWN" by (simp add: demo_joiner_def link_status_def neighbour_def demo_entry_def)
  show "neighbour demo_input 7 = Some (demo_entry 7 PSET_LINKED)" by (simp add: demo_input_defs neighbour_def demo_entry_def)
qed

theorem join_over_neighbour_witness:
  "\<exists>sA' fs. send_setup_req demo_env 7 7 5 demo_joiner = Some (0, sA') \<and> tx (io sA') = fs
     \<and> (\<forall>f \<in> set fs. \<exists>sB'. vrr_rcv nine_env (\<lambda>i skb s. (0, s)) \<lparr>skb_id = 0, skb_data = fr_data f, skb_src_mac = [], skb_dev_addr = []\<rparr> demo_input
           = Some (NET_RX_SUCCESS, sB') \<and> rt_get_next 7 sB' = Some (7, sB'))"
proof -
  have al: "\<forall>i. k_alloc demo_env i" "\<forall>i. k_alloc nine_env i" "\<forall>i. k_random nine_env i \<noteq> 0" by simp_all
  have tx0: "tx (io demo_joiner) = []" by (simp add: demo_joiner_def demo_peer_def demo_input_defs idle_io_def)
  have rd: "ready_for (ME demo_input) demo_joiner" "ready_for (ME demo_joiner) demo_input"
      "neighbour demo_input (ME demo_joiner) = Some (demo_entry 7 PSET_LINKED)" "link_status demo_joiner (ME demo_joiner) = PSET_UNKNOWN"
    using demo_join_ready by simp_all
  obtain sA' fs where a: "send_setup_req demo_env (ME demo_joiner) (ME demo_joiner) (ME demo_input) demo_joiner = Some (0, sA')"
      "tx (io sA') = tx (io demo_joiner) @ fs"
    and b: "\<forall>f \<in> set fs. \<forall>skb. skb_data skb = fr_data f \<longrightarrow> (\<exists>sB' pre gs. vrr_rcv nine_env (\<lambda>i skb s. (0, s)) skb demo_input = Some (NET_RX_SUCCESS, sB')
        \<and> sys_inv sB' \<and> in_vset sB' (ME demo_joiner) \<and> rt_get_next (ME demo_joiner) sB' = Some (ME demo_joiner, sB')
        \<and> tx (io sB') = tx (io demo_input) @ pre @ gs)"
    using join_over_neighbour [OF demo_env_laws al(1) nine_env_ok(1,2) al(2,3) rd, of "\<lambda>i skb s. (0, s)" "\<lambda>i skb s. (0, s)"] by metis
  show ?thesis
    using a b tx0 unfolding demo_join_ready(3,4)
    by (metis append_Nil sk_buff.select_convs(2))
qed

text \<open>
  C22: a full virtual set silences its owner. The size a node sends with a request is the counter that
  eviction never decreases, and a receiver refuses any size above four. So once the counter of a node
  has passed four, every request it sends is dropped by every node that does not forward it, which
  keeps its routes and its virtual set as they were.
\<close>

theorem full_set_requests_refused:
  fixes sA :: "'a input_globals_scheme" and sB :: "'b input_globals_scheme"
  assumes "sys_inv sA" "\<forall>i. k_alloc KA i" "VRR_VSET_SIZE < vset_size sA" "4 * (vset_size sA + 2) \<le> INT_MAX"
    and "sys_inv sB" "rt_search_exclude (ME sB) None (rt_root sB) dst src = 0"
  shows "\<exists>sA' fs. send_setup_req KA src dst proxy sA = Some (0, sA') \<and> tx (io sA') = tx (io sA) @ fs
     \<and> (\<forall>f \<in> set fs. \<forall>skb. skb_data skb = fr_data f \<longrightarrow>
          (\<exists>sB'. vrr_rcv KB R skb sB = Some (NET_RX_DROP, sB') \<and> rt_root sB' = rt_root sB \<and> vset sB' = vset sB
             \<and> skb_users (io sB') (skb_id skb) = skb_users (io sB) (skb_id skb) - 1))"
proof -
  let ?k = "vset_size sA"
  obtain n where n: "can_send sA n" using assms(1) by (auto simp: sys_inv_def elim: sys_core_can_send)
  let ?h = "msg_header n src dst VRR_SETUP_REQ (req_mac KA proxy sA) (?k + 2)"
  obtain vs sA' where a: "send_setup_req KA src dst proxy sA = Some (0, sA')" "message KA (vn_dev_list n) ?h ([proxy, of_nat ?k] @ vs) sA sA'"
    by (rule send_setup_req_run [OF n assms(2,4)])
  obtain fs where fs: "tx (io sA') = tx (io sA) @ fs" "\<forall>f \<in> set fs. carries ?h ([proxy, of_nat ?k] @ vs) (fr_data f)"
    by (rule message_frames [OF a(2)]) blast
  have "\<exists>sB'. vrr_rcv KB R skb sB = Some (NET_RX_DROP, sB') \<and> rt_root sB' = rt_root sB \<and> vset sB' = vset sB
      \<and> skb_users (io sB') (skb_id skb) = skb_users (io sB) (skb_id skb) - 1" if c: "carries ?h ([proxy, of_nat ?k] @ vs) (skb_data skb)" for skb
  proof -
    let ?s = "heard src sB"
    have hd: "vrr_hdr skb = Some ?h" by (rule carries_hdr [OF c])
    have w: "read_u32 skb (sizeof_vrr_header + 4) o1 = of_nat ?k" for o1 using carries_word [OF c, of 1] by simp
    have u: "\<not> held (tick ?s) vrr_rt_lock" using assms(5) by (simp add: sys_inv_def sys_core_def net_def)
    have ex: "rt_get_next_exclude dst src (tick ?s) = Some (0, tick ?s)"
      using rt_get_next_exclude_run [OF u, of dst src] assms(6) by (simp add: tick_def)
    have "?k < 2 ^ 32" using assms(4) by (simp add: INT_MAX_def)
    then have r: "read_vset KB skb off (of_nat ?k) 0 (tick ?s) = (None, tick ?s)" for off using read_vset_refused assms(3) by blast
    have "vrr_rcv_setup_req KB skb ?h ?s = Some (-1, tick ?s)"
      using ex r by (simp add: vrr_rcv_setup_req_def uninit_def w Let_def)
    then have "vrr_rcv KB R skb sB = Some (NET_RX_DROP, kfree_skb (skb_id skb) (tick ?s))"
      using vrr_rcv_dispatch(2) [OF assms(5) hd, of KB R] by (simp add: vrr_rcvfunc_def word_less_nat_alt)
    then show ?thesis by (simp add: kfree_skb_def tick_def)
  qed
  then show ?thesis using a(1) fs by (metis (no_types, lifting))
qed

theorem full_set_requests_refused_witness:
  "\<exists>sA' fs. send_setup_req demo_env 5 5 7 (demo_input\<lparr>vset_size := 5\<rparr>) = Some (0, sA') \<and> tx (io sA') = fs
     \<and> (\<forall>f \<in> set fs. \<exists>sB'. vrr_rcv demo_env (\<lambda>i skb s. (0, s)) \<lparr>skb_id = 0, skb_data = fr_data f, skb_src_mac = [], skb_dev_addr = []\<rparr> demo_peer
           = Some (NET_RX_DROP, sB'))"
proof -
  have al: "\<forall>i. k_alloc demo_env i" by simp
  have full: "sys_inv (demo_input\<lparr>vset_size := 5\<rparr>)"
    using demo_input_ok by (simp add: sys_inv_def sys_core_def work_ok_def net_def unlocked_def rt_inv_def vset_inv_def pset_inv_def
        core_inv_def pstate_ok_def node_ok_def socks_inv_def updates_ok_def INT_MAX_def demo_input_defs)
  have tx0: "tx (io (demo_input\<lparr>vset_size := 5\<rparr>)) = []" and ex: "rt_search_exclude (ME demo_peer) None (rt_root demo_peer) 5 5 = 0"
    by (simp_all add: demo_peer_def demo_input_defs idle_io_def)
  have i: "VRR_VSET_SIZE < vset_size (demo_input\<lparr>vset_size := 5\<rparr>)" "4 * (vset_size (demo_input\<lparr>vset_size := 5\<rparr>) + 2) \<le> INT_MAX"
    by (simp_all add: INT_MAX_def)
  obtain sA' fs where a: "send_setup_req demo_env 5 5 7 (demo_input\<lparr>vset_size := 5\<rparr>) = Some (0, sA')"
      "tx (io sA') = tx (io (demo_input\<lparr>vset_size := 5\<rparr>)) @ fs"
    and b: "\<forall>f \<in> set fs. \<forall>skb. skb_data skb = fr_data f \<longrightarrow>
       (\<exists>sB'. vrr_rcv demo_env (\<lambda>i skb s. (0, s)) skb demo_peer = Some (NET_RX_DROP, sB') \<and> rt_root sB' = rt_root demo_peer)"
    using full_set_requests_refused [OF full al i demo_peer_ok ex, of 7 demo_env "\<lambda>i skb s. (0, s)"] by metis
  show ?thesis using a b tx0 by (metis append_Nil sk_buff.select_convs(2))
qed

text \<open>
  C29: a teardown for an unknown path is fatal. Any node that receives a well-formed teardown naming a
  path it has no route for dereferences the NULL it got from the routing table: there is no defined result.
\<close>

theorem unknown_teardown_fatal:
  assumes "sys_inv s" "carries h ([endp, pid] @ ws) (skb_data skb)" "pkt_type h = VRR_TEARDOWN"
    and "\<forall>rs. rt_routes (rt_root s) endp = Some rs \<longrightarrow> (\<forall>r \<in> set rs. path_id r \<noteq> pid)"
  shows "vrr_rcv K R skb s = None"
proof -
  have lt: "pkt_type h < VRR_NPTYPES" using assms(3) by (simp add: word_less_nat_alt)
  note d = vrr_rcv_dispatch [OF assms(1) carries_hdr [OF assms(2)] lt]
  have "sys_core (heard (src_id h) s)" using d(1) by (simp add: sys_inv_def)
  then have "vrr_rcv_teardown K skb h (heard (src_id h) s) = None"
    by (rule teardown_unknown [OF _ assms(2)]) (use assms(4) in \<open>simp split: option.split\<close>)
  then show ?thesis using d(2) [of K R] assms(3) by (simp add: vrr_rcvfunc_def)
qed

theorem unknown_teardown_fatal_witness:
  "vrr_rcv demo_env (\<lambda>i skb s. (0, s)) (demo_skb (demo_header VRR_TEARDOWN 8 5) [9, 3, 0]) demo_input = None"
proof -
  have c: "carries (demo_header VRR_TEARDOWN 8 5) ([9, 3] @ [0]) (skb_data (demo_skb (demo_header VRR_TEARDOWN 8 5) [9, 3, 0]))"
    using demo_skb_carries by simp
  show ?thesis by (rule unknown_teardown_fatal [OF demo_input_ok c]) (simp_all add: demo_input_defs)
qed

text \<open>
  C30: a setup failure is fatal where it was meant to arrive. A node that receives a well-formed setup
  failure addressed to itself, when it has no route to the proxy named in it, stores one word beyond
  the array it allocated: there is no defined result, whatever virtual set the packet carries.
\<close>

theorem setup_failure_overruns:
  assumes "sys_inv s" "carries h ([proxy, of_nat k] @ vs) (skb_data skb)" "length vs = k" "k \<le> VRR_VSET_SIZE" "\<forall>i. k_alloc K i"
    and "pkt_type h = VRR_SETUP_FAIL" "dest_id h = ME s" "link_status s (ME s) = PSET_UNKNOWN" "rt_search (ME s) (rt_root s) proxy = 0"
  shows "vrr_rcv K R skb s = None"
proof -
  have lt: "pkt_type h < VRR_NPTYPES" using assms(6) by (simp add: word_less_nat_alt)
  note d = vrr_rcv_dispatch [OF assms(1) carries_hdr [OF assms(2)] lt]
  have "sys_core (heard (src_id h) s)" using d(1) by (simp add: sys_inv_def)
  then have "vrr_rcv_setup_fail K skb h (heard (src_id h) s) = None"
    by (rule setup_fail_at_destination [OF _ assms(2-5)]) (use assms(7-9) in simp_all)
  then show ?thesis using d(2) [of K R] assms(6) by (simp add: vrr_rcvfunc_def)
qed

theorem setup_failure_overruns_witness:
  "vrr_rcv demo_env (\<lambda>i skb s. (0, s)) (demo_skb (demo_header VRR_SETUP_FAIL 8 5) [9, 1, 3]) demo_input = None"
proof -
  have c: "carries (demo_header VRR_SETUP_FAIL 8 5) ([9, of_nat 1] @ [3]) (skb_data (demo_skb (demo_header VRR_SETUP_FAIL 8 5) [9, 1, 3]))"
    using demo_skb_carries by simp
  show ?thesis
    by (rule setup_failure_overruns [OF demo_input_ok c]) (simp_all add: demo_input_defs link_status_def neighbour_def demo_entry_def)
qed

text \<open>
  C31: a request from identifier 0xFFFFFFFF is fatal to a node with an empty virtual set. \<open>vrr_add\<close> treats
  that identifier as no source and reports failure; the failure handler then allocates no bytes and
  stores a word there.
\<close>

theorem reserved_source_fatal:
  assumes "sys_inv s" "sort_by_address K" "\<forall>i. k_alloc K i" "carries h ([proxy, of_nat k] @ vs) (skb_data skb)" "length vs = k" "k \<le> VRR_VSET_SIZE"
    and "pkt_type h = VRR_SETUP_REQ" "src_id h = UINT_MAX" "vset_size s = 0"
    and "rt_search_exclude (ME s) None (rt_root s) (dest_id h) UINT_MAX = 0"
  shows "vrr_rcv K R skb s = None"
proof -
  let ?s = "heard (src_id h) s"
  have lt: "pkt_type h < VRR_NPTYPES" using assms(7) by (simp add: word_less_nat_alt)
  note d = vrr_rcv_dispatch [OF assms(1) carries_hdr [OF assms(4)] lt]
  have core: "sys_core ?s" using d(1) by (simp add: sys_inv_def)
  obtain ovs u where u: "io_only ?s u"
    "vrr_rcv_setup_req K skb h ?s = do {
       (added, t) \<leftarrow> vrr_add K (src_id h) k vs u;
       if added \<noteq> 0 then do {
         let (pid, t) = vrr_new_path_id K t;
         (_, t) \<leftarrow> vrr_local_rcv_setup K (src_id h) pid proxy (vset_size ?s) ovs t;
         Some (0, t) }
       else do { (_, t) \<leftarrow> vrr_local_rcv_setup_fail K (src_id h) proxy (vset_size ?s) ovs t; Some (0, t) } }"
    by (rule setup_req_read [OF core assms(3-6)]) (use assms(8,10) in auto)
  obtain n where n: "can_add ?s n" "vrr ?s = Some n"
    by (rule sys_core_can_add [OF core]) (use assms(9) in \<open>auto simp: INT_MAX_def\<close>)
  have cu: "can_add u n" using can_add_io_only [OF u(1)] n(1) by simp
  obtain t where t: "vrr_add_loop K (vn_id n) vs u = Some t" using vrr_add_loop_total [OF cu assms(3,2)] by blast
  have io: "io_only ?s t" using vrr_add_loop_io [OF t] io_only_trans [OF u(1)] by blast
  have vu: "vrr u = Some n" "vrr t = Some n" using u(1) io n(2) by (auto elim!: io_onlyE)
  have add: "vrr_add K (src_id h) k vs u = Some (0, t)"
    using vu(1) t assms(5,8) by (simp add: vrr_add_def get_vrr_id_def arr_prefix_def)
  have "unlocked (tick t)" using core io_tick_io [OF io] unlocked_io_only by (metis sys_core_def net_def)
  then have "vrr_local_rcv_setup_fail K (src_id h) proxy 0 ovs t = None"
    using vu(2) by (simp add: vrr_local_rcv_setup_fail_def get_vrr_id_def kmalloc_def setup_next_hop_run)
  then show ?thesis using d(2) [of K R] assms(7,9) u(2) add by (simp add: vrr_rcvfunc_def)
qed

theorem reserved_source_fatal_witness:
  "vrr_rcv demo_env (\<lambda>i skb s. (0, s)) (demo_skb (demo_header VRR_SETUP_REQ UINT_MAX 5) [9, 0]) demo_input = None"
proof -
  have al: "\<forall>i. k_alloc demo_env i" by simp
  have c: "carries (demo_header VRR_SETUP_REQ UINT_MAX 5) ([9, of_nat 0] @ []) (skb_data (demo_skb (demo_header VRR_SETUP_REQ UINT_MAX 5) [9, 0]))"
    using demo_skb_carries by simp
  show ?thesis by (rule reserved_source_fatal [OF demo_input_ok demo_env_laws(2) al c]) (simp_all add: demo_input_defs)
qed

text \<open>
  C27: a teardown is passed on. A teardown for a path the node has a route for removes exactly that route
  from the list of the endpoint named in it, and goes on with the same contents to the hop on the other
  side of the route, if that hop is a neighbour.
\<close>

theorem teardown_passed_on:
  fixes s :: "'a input_globals_scheme"
  assumes "sys_inv s" "carries h ([endp, pid, of_nat k] @ vs) (skb_data skb)" "length vs = k" "k \<le> VRR_VSET_SIZE" "\<forall>i. k_alloc K i"
    and "pkt_type h = VRR_TEARDOWN" "rt_routes (rt_root s) endp = Some rs" "first_match (\<lambda>r. path_id r = pid) rs = Some r"
    and "nxt = (if na r = src_id h then nb r else na r)" "nxt \<noteq> 0" "neighbour s nxt = Some e"
  shows "\<exists>t fs n h'. vrr_rcv K R skb s = Some (NET_RX_SUCCESS, t) \<and> vrr s = Some n
     \<and> rt_routes (rt_root t) = (rt_routes (rt_root s))(endp \<mapsto> del_first (\<lambda>r. path_id r = pid) rs) \<and> vset t = vset s
     \<and> tx (io t) = tx (io s) @ fs \<and> map fr_dev fs = live K (vn_dev_list n)
     \<and> pkt_type h' = VRR_TEARDOWN \<and> src_id h' = ME s \<and> dest_id h' = nxt
     \<and> (\<forall>f \<in> set fs. carries h' ([endp, pid, of_nat k] @ vs) (fr_data f) \<and> fr_dest f = pl_mac e)"
proof -
  let ?s = "heard (src_id h) s" let ?ws = "[endp, pid, of_nat k] @ vs"
  have lt: "pkt_type h < VRR_NPTYPES" using assms(6) by (simp add: word_less_nat_alt)
  note d = vrr_rcv_dispatch [OF assms(1) carries_hdr [OF assms(2)] lt]
  have core: "sys_core ?s" using d(1) by (simp add: sys_inv_def)
  obtain n where n: "can_send ?s n" "vrr ?s = Some n" "vn_id n = ME ?s" by (rule sys_core_can_send [OF core])
  obtain m where m: "vrr s = Some m" "vn_dev_list m = vn_dev_list n" using n(2) by auto
  have w: "read_u32 skb sizeof_vrr_header o0 = endp" "read_u32 skb (sizeof_vrr_header + 4) o1 = pid"
      "read_u32 skb (sizeof_vrr_header + 8) o2 = of_nat k" for o0 o1 o2
    using carries_word [OF assms(2), of 0] carries_word [OF assms(2), of 1] carries_word [OF assms(2), of 2] by simp_all
  define s2 where "s2 = (tick ?s)\<lparr>rt_root := rt_del (rt_root s) endp pid\<rparr>"
  have "\<not> held (tick ?s) vrr_rt_lock" using assms(1) by (simp add: sys_inv_def sys_core_def net_def)
  then have rm: "rt_remove_route endp pid (tick ?s) = Some (Some r, s2)"
    using rt_remove_route_run [of "tick ?s" endp pid] assms(7,8) by (simp add: s2_def tick_def)
  define s4 where "s4 = tick (tick s2)"
  have r: "read_vset K skb (sizeof_vrr_header + 12) (of_nat k) 0 s2 = (Some (k, vs), s4)"
    using read_vset_message [OF assms(5,2,3,4), of "sizeof_vrr_header + 12" 0 s2] by (auto simp: s4_def)
  have c4: "can_send s4 n" using n(1) by (simp add: s4_def s2_def tick_def can_send_def unlocked_def pset_inv_def vset_inv_def)
  obtain e' where e': "neighbour s4 nxt = Some e'" "pl_mac e' = pl_mac e"
    using assms(11) heard_neighbour [of "src_id h" s nxt] by (auto simp: s4_def s2_def neighbour_def split: if_splits)
  obtain t where t: "alloc_and_output K ?ws (Some (ME s)) nxt VRR_TEARDOWN (pl_mac e') s4 = Some (0, t)" "io_only s4 t"
      "message K (vn_dev_list n) (msg_header n (ME s) nxt VRR_TEARDOWN (pl_mac e') (length ?ws)) ?ws s4 t"
    by (rule alloc_and_output_to [OF c4 assms(5) e'(1)])
  have u4: "unlocked s4" "get_vrr_id s4 = Some (ME s)" using c4 n(3) by (simp_all add: can_send_def get_vrr_id_def)
  have sm: "4 * (k + 3) \<le> INT_MAX" using assms(4) by (simp add: INT_MAX_def)
  have "send_teardown K pid endp vs k nxt s4 = Some (0, t)"
    using send_to_neighbour_eq(3) [OF u4(1) e'(1) assms(3) sm] t(1) u4(2) by simp
  then have "vrr_rcv_teardown K skb h ?s = Some (0, t)"
    using rm r assms(9,10) by (cases "na r = src_id h") (simp_all add: vrr_rcv_teardown_def uninit_def w)
  then have run: "vrr_rcv K R skb s = Some (NET_RX_SUCCESS, t)" using d(2) [of K R] assms(6) by (simp add: vrr_rcvfunc_def)
  obtain fs where fs: "tx (io t) = tx (io s4) @ fs" "map fr_dev fs = live K (vn_dev_list n)"
      "\<forall>f \<in> set fs. carries (msg_header n (ME s) nxt VRR_TEARDOWN (pl_mac e') (length ?ws)) ?ws (fr_data f) \<and> fr_dest f = pl_mac e"
    by (rule message_frames [OF t(3)]) (use assms(5) e'(2) in auto)
  have "rt_ordered (rt_root s)" using assms(1) by (simp add: sys_inv_def sys_core_def net_def rt_inv_def)
  then have rt: "rt_routes (rt_del (rt_root s) endp pid) = (rt_routes (rt_root s))(endp \<mapsto> del_first (\<lambda>r. path_id r = pid) rs)"
    using rtab.lookup_del [of "rt_root s" endp pid] assms(7) by auto
  have fin: "rt_root t = rt_del (rt_root s) endp pid" "vset t = vset s" "tx (io s4) = tx (io s)"
    using t(2) by (auto simp: s4_def s2_def tick_def elim!: io_onlyE)
  show ?thesis
    using run m fs rt fin
    by (intro exI [of _ t] exI [of _ fs] exI [of _ m] exI [of _ "msg_header n (ME s) nxt VRR_TEARDOWN (pl_mac e') (length ?ws)"]) auto
qed

definition demo_tail :: input_globals where
  "demo_tail = demo_input\<lparr>rt_root := \<langle>\<langle>\<rangle>, \<lparr>endpoint = 9, routes = [\<lparr>ea = 9, eb = 4, na = 8, nb = 7, path_id = 3\<rparr>]\<rparr>, \<langle>\<rangle>\<rangle>\<rparr>"

theorem teardown_passed_on_witness:
  "\<exists>t f. vrr_rcv demo_env (\<lambda>i skb s. (0, s)) (demo_skb (demo_header VRR_TEARDOWN 8 5) [9, 3, 0]) demo_tail = Some (NET_RX_SUCCESS, t)
     \<and> tx (io t) = [f] \<and> fr_dest f = [2, 0, 0, 0, 0, 7] \<and> rt_routes (rt_root t) 9 = Some []"
proof -
  have al: "\<forall>i. k_alloc demo_env i" by simp
  have inv: "sys_inv demo_tail"
    using demo_input_ok by (simp add: demo_tail_def sys_inv_def sys_core_def work_ok_def net_def unlocked_def rt_inv_def rt_ordered_def
        rt_entries_ok_def vset_inv_def pset_inv_def core_inv_def pstate_ok_def node_ok_def socks_inv_def updates_ok_def)
  have c: "carries (demo_header VRR_TEARDOWN 8 5) ([9, 3, of_nat 0] @ []) (skb_data (demo_skb (demo_header VRR_TEARDOWN 8 5) [9, 3, 0]))"
    using demo_skb_carries by simp
  have rt: "rt_routes (rt_root demo_tail) 9 = Some [\<lparr>ea = 9, eb = 4, na = 8, nb = 7, path_id = 3\<rparr>]" by (simp add: demo_tail_def)
  have nb: "neighbour demo_tail 7 = Some (demo_entry 7 PSET_LINKED)" and dv: "\<And>n. vrr demo_tail = Some n \<Longrightarrow> vn_dev_list n = [''wlan0'']"
    and tx0: "tx (io demo_tail) = []"
    by (auto simp: demo_tail_def demo_input_defs neighbour_def demo_entry_def idle_io_def)
  obtain t fs n where t: "vrr_rcv demo_env (\<lambda>i skb s. (0, s)) (demo_skb (demo_header VRR_TEARDOWN 8 5) [9, 3, 0]) demo_tail = Some (NET_RX_SUCCESS, t)"
      "vrr demo_tail = Some n" "rt_routes (rt_root t) 9 = Some []" "tx (io t) = fs" "map fr_dev fs = live demo_env (vn_dev_list n)"
      "\<forall>f \<in> set fs. fr_dest f = [2, 0, 0, 0, 0, 7]"
    using teardown_passed_on [OF inv c _ _ al _ rt _ _ _ nb, of "\<lparr>ea = 9, eb = 4, na = 8, nb = 7, path_id = 3\<rparr>" "\<lambda>i skb s. (0, s)"] tx0
    by (auto simp: demo_entry_def)
  have "map fr_dev fs = [''wlan0'']" using t(5) dv [OF t(2)] by (simp add: live_def)
  then show ?thesis using t by auto
qed

end
