(* ===== verification/Robust.thy ===== *)
theory Robust
  imports Setup_Path
begin

text \<open>
  Which packets a node always survives. With memory available, data packets, hellos, setups and setup
  requests of any content are processed to the end; the exceptions are those of \<open>Setup_Path\<close>.
\<close>

section \<open>Forwarding\<close>

lemma output_total:
  assumes "vrr s = Some n" "sizeof_vrr_header \<le> length (skb_data skb)"
  shows "\<exists>r t. vrr_output K skb ty s = Some (r, t)"
proof -
  obtain vh where "parse_header (skb_data skb) = Some vh"
    using assms(2) parse_header_None_iff [of "skb_data skb"] by (cases "parse_header (skb_data skb)") auto
  then show ?thesis using vrr_output_run [OF assms(1)] by blast
qed

lemma length_set_dest_mac: "length m = ETH_ALEN \<Longrightarrow> 28 \<le> length d \<Longrightarrow> length (set_dest_mac m d) = length d"
  by (simp add: set_dest_mac_def)

lemma forward_total:
  assumes "can_send s n" "sizeof_vrr_header \<le> length (skb_data skb)"
  shows "\<exists>r t. vrr_forward K skb vh s = Some (r, t)" "\<exists>r t. vrr_forward_setup_req K skb vh nh s = Some (r, t)"
proof -
  have st: "unlocked s" "vrr s = Some n" "pset_inv s" using assms(1) by (simp_all add: can_send_def)
  have out: "\<exists>r t. vrr_output K (skb\<lparr>skb_data := set_dest_mac (pl_mac e) (skb_data skb)\<rparr>) ty s = Some (r, t)"
    if "neighbour s x = Some e" for x e ty
    using output_total [OF st(2), of "skb\<lparr>skb_data := set_dest_mac (pl_mac e) (skb_data skb)\<rparr>"] assms(2)
      length_set_dest_mac [OF neighbour_mac_length [OF st(3) that]] by (simp add: sizeof_vrr_header_def)
  show "\<exists>r t. vrr_forward K skb vh s = Some (r, t)"
    using st(1) out by (cases "neighbour s (rt_search (ME s) (rt_root s) (dest_id vh))")
      (auto simp: vrr_forward_def rt_get_next_run pset_get_mac_run)
  show "\<exists>r t. vrr_forward_setup_req K skb vh nh s = Some (r, t)"
    using st(1) out by (cases "neighbour s nh") (auto simp: vrr_forward_setup_req_def pset_get_mac_run)
qed

section \<open>Tearing down\<close>

lemma tear_down_hop_total:
  assumes "can_send s n" "\<forall>i. k_alloc K i"
  shows "\<exists>t. tear_down_hop K path endpt 0 hop s = Some t"
proof -
  have u: "unlocked s" using assms(1) by (simp add: can_send_def)
  obtain r t where "send_teardown K path endpt [] 0 hop s = Some (r, t)"
    using send_total(3) [OF assms, of "[]" 0 path endpt hop] by (auto simp: INT_MAX_def)
  then show ?thesis using u by (auto simp: tear_down_hop_def pset_contains_run)
qed

lemma can_send_root1: "can_send (s\<lparr>rt_root := r\<rparr>) n = can_send s n"
  by (simp add: can_send_def unlocked_def pset_inv_def vset_inv_def)

lemma tear_down_path_total:
  assumes "can_send s n" "\<forall>i. k_alloc K i"
  shows "\<exists>r t. tear_down_path K path endpt 0 s = Some (r, t)"
proof -
  have u: "\<not> held s vrr_rt_lock" using assms(1) by (simp add: can_send_def)
  obtain x s1 where 1: "rt_remove_route endpt path s = Some (x, s1)" "can_send s1 n"
    using rt_remove_route_run [OF u, of endpt path] assms(1) by (simp add: can_send_root1)
  show ?thesis
  proof (cases x)
    case None
    then show ?thesis using 1(1) by (simp add: tear_down_path_def)
  next
    case (Some r)
    obtain s2 where 2: "tear_down_hop K path endpt 0 (na r) s1 = Some s2" using tear_down_hop_total [OF 1(2) assms(2)] by blast
    have c2: "can_send s2 n" using can_send_io_only [OF tear_down_hop_io [OF 2]] 1(2) by simp
    obtain s3 where 3: "tear_down_hop K path endpt 0 (nb r) s2 = Some s3" using tear_down_hop_total [OF c2 assms(2)] by blast
    have c3: "can_send s3 n" using can_send_io_only [OF tear_down_hop_io [OF 3]] c2 by simp
    obtain s4 where "tear_down_hop K path endpt 0 0 s3 = Some s4" using tear_down_hop_total [OF c3 assms(2)] by blast
    then show ?thesis using 1(1) 2 3 Some by (simp add: tear_down_path_def)
  qed
qed

section \<open>Setup requests\<close>

lemma local_setup_total:
  assumes "rb_keeps_order K" "net s" "can_send s n" "vn_id n = ME s" "\<forall>i. k_alloc K i" "length vs = k" "4 * (k + 3) \<le> INT_MAX"
  shows "\<exists>r t. vrr_local_rcv_setup K dst pid proxy k vs s = Some (r, t)"
  by (rule local_setup_run [OF assms, where dst = dst and proxy = proxy and pid = pid]) blast

lemma local_setup_fail_total:
  assumes "can_add s n" "\<forall>i. k_alloc K i" "sort_by_address K" "length vs = k" "k \<noteq> 0" "4 * (k + 3) \<le> INT_MAX"
  shows "\<exists>r t. vrr_local_rcv_setup_fail K dst proxy k vs s = Some (r, t)"
proof -
  have a1: "can_add (tick s) n" using can_add_io_only [OF io_only_tick, of s n] assms(1) by simp
  then have st: "unlocked (tick s)" "vrr s = Some n" by (simp_all add: can_add_def can_send_def)
  obtain r s1 where 1: "vrr_add K UINT_MAX 1 [dst] (tick s) = Some (r, s1)"
    using vrr_add_total [OF a1 assms(2,3), of 1 "[dst]" UINT_MAX] by auto
  have "vset_inv (tick s)" using a1 by (simp add: can_add_def can_send_def)
  then have "vset_only (tick s) s1" "vset_inv s1" using vrr_add_effect [OF 1 assms(3)] by simp_all
  then have "can_send s1 n" using a1 by (simp add: can_add_def can_send_def vset_only_sel)
  then obtain r' t where "send_setup_fail K (vn_id n) dst proxy k vs (setup_hop (tick s) dst proxy) s1 = Some (r', t)"
    using send_total(2) [OF _ assms(2,4,6)] by blast
  then show ?thesis
    using st 1 assms(2,5) by (auto simp: vrr_local_rcv_setup_fail_def get_vrr_id_def kmalloc_def setup_next_hop_run)
qed

text \<open>\<open>vrr_add\<close> refuses a proper source only when the virtual set has been filled or holds it already.\<close>

lemma vrr_add_refused:
  assumes "vrr_add K src k vs s = Some (0, t)" "can_add s n" "src \<noteq> UINT_MAX" "sort_by_address K"
  shows "vset_size s \<noteq> 0"
proof
  assume z: "vset_size s = 0"
  obtain me us s1 where 1: "vrr_add_loop K me us s = Some s1"
    and 2: "vset_should_add K src s1 \<bind> (\<lambda>(add, s). if add \<noteq> 0 then do { (_, s) \<leftarrow> vset_add K src s; Some (1, s) } else Some (0, s)) = Some (0 :: int, t)"
    using assms(1,3) by (auto simp: vrr_add_def run_simps)
  have io: "io_only s s1" by (rule vrr_add_loop_io [OF 1])
  have c: "can_add s1 n" using can_add_io_only [OF io] assms(2) by simp
  then have st: "\<not> held s1 vrr_vset_lock" "vset_inv s1" by (simp_all add: can_add_def can_send_def)
  have e: "vset_size s1 = 0" "vset s1 = []" using vset_size_io_only [OF io] z st(2) by (simp_all add: vset_inv_def)
  have "vset_should_add K src s1 = Some (1, tick (tick s1))"
    using vset_should_add_run [OF st assms(4), of src] e by (simp add: in_vset_def)
  then show False using 2 by (auto simp: run_simps)
qed

lemma net_of_vset:
  assumes "vset_only s t" "vset_inv t" "net s" "can_send s n"
  shows "net t" "can_send t n" "ME t = ME s"
  using net_vset_only [OF assms(1-3)] assms(2,4) by (simp_all add: can_send_def vset_only_sel [OF assms(1)])

text \<open>The end of \<open>vrr_rcv_setup_req\<close>, once the message is read: take the source in and answer, or refuse.\<close>

lemma setup_req_tail_total:
  assumes "rb_keeps_order K" "sort_by_address K" "\<forall>i. k_alloc K i" "can_add u n" "net u" "vn_id n = ME u" "4 * (length ovs + 3) \<le> INT_MAX"
    and "k \<le> length vs" "src \<noteq> UINT_MAX \<or> vset_size u \<noteq> 0" "length ovs = vset_size u"
  shows "\<exists>r t. do {
      (added, s) \<leftarrow> vrr_add K src k vs u;
      if added \<noteq> 0 then do {
        let (pid, s) = vrr_new_path_id K s;
        (_, s) \<leftarrow> vrr_local_rcv_setup K src pid proxy (length ovs) ovs s;
        Some (0, s) }
      else do { (_, s) \<leftarrow> vrr_local_rcv_setup_fail K src proxy (length ovs) ovs s; Some (0, s) } } = Some (r :: int, t)"
proof -
  obtain a s2 where 2: "vrr_add K src k vs u = Some (a, s2)" using vrr_add_total [OF assms(4,3,2,8)] by blast
  have vi: "vset_inv u" and cs: "can_send u n" using assms(4) by (simp_all add: can_add_def can_send_def)
  have e2: "vset_only u s2" "vset_inv s2" "a = 0 \<longrightarrow> io_only u s2" using vrr_add_effect [OF 2 assms(2) vi] by simp_all
  note c2 = net_of_vset [OF e2(1,2) assms(5) cs]
  show ?thesis
  proof (cases "a = 0")
    case True
    have "can_add s2 n" using can_add_io_only e2(3) True assms(4) by blast
    moreover have "length ovs \<noteq> 0" using assms(9,10) vrr_add_refused [OF 2 [unfolded True] assms(4) _ assms(2)] by auto
    ultimately obtain r' t' where "vrr_local_rcv_setup_fail K src proxy (length ovs) ovs s2 = Some (r', t')"
      using local_setup_fail_total [OF _ assms(3,2) refl _ assms(7)] by blast
    then show ?thesis using 2 True by simp
  next
    case False
    have io3: "io_only s2 (tick s2)" by simp
    have "net (tick s2)" "can_send (tick s2) n" "vn_id n = ME (tick s2)"
      using net_io [OF io3 c2(1)] can_send_io_only [OF io3, of n] c2(2,3) assms(6) by (simp_all add: tick_def)
    note loc = local_setup_total [OF assms(1) this assms(3) refl assms(7)]
    obtain p where p: "vrr_new_path_id K s2 = (p, tick s2)" by (simp add: vrr_new_path_id_def get_random_bytes_def)
    obtain r' t' where "vrr_local_rcv_setup K src p proxy (length ovs) ovs (tick s2) = Some (r', t')" using loc [of src p proxy] by blast
    then show ?thesis using 2 False p by simp
  qed
qed

lemma setup_req_total:
  assumes "rb_keeps_order K" "sort_by_address K" "\<forall>i. k_alloc K i" "sys_core s" "4 * (vset_size s + 3) \<le> INT_MAX"
    and "sizeof_vrr_header \<le> length (skb_data skb)" "src_id h \<noteq> UINT_MAX \<or> vset_size s \<noteq> 0"
  shows "\<exists>r t. vrr_rcv_setup_req K skb h s = Some (r, t)"
proof -
  obtain n where n: "can_add s n" "vrr s = Some n" "vn_id n = ME s" by (rule sys_core_can_add [OF assms(4,5)])
  let ?s1 = "tick s"
  have c1: "can_add ?s1 n" "net ?s1" using can_add_io_only [OF io_only_tick, of s n] n(1) net_io [OF io_only_tick sys_core_net [OF assms(4)]] by simp_all
  have l1: "\<not> held ?s1 vrr_rt_lock" using assms(4) by (simp add: sys_core_def net_def)
  define nh where "nh = rt_search_exclude (ME ?s1) None (rt_root ?s1) (dest_id h) (src_id h)"
  define sz where "sz = read_u32 skb (sizeof_vrr_header + 4) (k_junk K (clock (io s)) 1)"
  define proxy where "proxy = read_u32 skb sizeof_vrr_header (k_junk K (clock (io s)) 0)"
  have eq: "vrr_rcv_setup_req K skb h s =
     (if nh \<noteq> 0 then do { (_, s) \<leftarrow> vrr_forward_setup_req K skb h nh ?s1; Some (0, s) }
      else case read_vset K skb (sizeof_vrr_header + 8) sz 0 ?s1 of
         (None, s) \<Rightarrow> Some (-1, s)
       | (Some (k, vs), s) \<Rightarrow> do {
           ((osize, ovset), s) \<leftarrow> vset_get_all K s;
           (added, s) \<leftarrow> vrr_add K (src_id h) k vs s;
           if added \<noteq> 0 then do {
             let (pid, s) = vrr_new_path_id K s;
             (_, s) \<leftarrow> vrr_local_rcv_setup K (src_id h) pid proxy osize ovset s;
             Some (0, s) }
           else do { (_, s) \<leftarrow> vrr_local_rcv_setup_fail K (src_id h) proxy osize ovset s; Some (0, s) } })"
    using rt_get_next_exclude_run [OF l1, of "dest_id h" "src_id h"] unfolding nh_def sz_def proxy_def
    by (simp add: vrr_rcv_setup_req_def uninit_def Let_def split: prod.split option.split)
  consider (fwd) "nh \<noteq> 0" | (refused) "nh = 0" "\<not> sz \<le> of_nat VRR_VSET_SIZE" | (read) "nh = 0" "sz \<le> of_nat VRR_VSET_SIZE" by blast
  then show ?thesis
  proof cases
    case fwd
    have "can_send ?s1 n" using c1(1) by (simp add: can_add_def)
    then obtain r t where "vrr_forward_setup_req K skb h nh ?s1 = Some (r, t)" using forward_total(2) [OF _ assms(6)] by blast
    then show ?thesis using eq fwd by simp
  next
    case refused
    then show ?thesis using eq by (simp add: read_vset_def not_le)
  next
    case read
    let ?t = "tick (tick ?s1)"
    define vs where "vs = read_u32s skb (sizeof_vrr_header + 8) (unat sz) (k_junk K (Suc (clock (io ?s1))))"
    have r: "read_vset K skb (sizeof_vrr_header + 8) sz 0 ?s1 = (Some (unat sz, vs), ?t)"
      using read_vset_run [OF assms(3) read(2), of skb "sizeof_vrr_header + 8" 0 ?s1] by (simp add: vs_def)
    have io: "io_only s (tick (tick ?t))" "io_only s ?t" by (intro io_tick_io, simp)+
    have l: "\<not> held ?t vrr_vset_lock" "vset_inv ?t" using assms(4) vset_inv_io_only [OF io(2)] by (simp_all add: sys_core_def net_def)
    define ovs where "ovs = map vl_node (vset s) @ map (k_junk K (Suc (clock (io ?t)))) [length (vset s)..<vset_size s]"
    have all: "vset_get_all K ?t = Some ((vset_size s, ovs), tick (tick ?t))"
      using vset_get_all_run [OF l, of K] assms(3) by (simp add: ovs_def)
    have lo: "length ovs = vset_size s" using l(2) by (simp add: ovs_def vset_inv_def)
    define u where "u = tick (tick ?t)"
    have cu: "can_add u n" "net u" "ME u = ME s" "vset_size u = vset_size s"
      using can_add_io_only [OF io(1)] n(1) net_io [OF io(1) sys_core_net [OF assms(4)]] by (simp_all add: u_def) (simp add: tick_def)
    have "unat sz \<le> length vs" by (simp add: vs_def)
    note tail = setup_req_tail_total [OF assms(1-3) cu(1,2) _ _ this, of ovs "src_id h" proxy, unfolded cu lo]
    show ?thesis unfolding eq using tail n(3) assms(5,7) read(1) r all by (simp add: u_def)
  qed
qed

section \<open>Setups\<close>

text \<open>The end of \<open>vrr_rcv_setup\<close>, once the route is in the table: forward, or take the sender in.\<close>

lemma setup_tail_total:
  assumes "sort_by_address K" "\<forall>i. k_alloc K i" "can_add s n"
  shows "\<exists>r t. (case read_vset K skb off sz 0 s of
      (None, s) \<Rightarrow> Some (-1 :: int, s)
    | (Some (k, vs), s) \<Rightarrow>
        if nh \<noteq> 0 then do { (_, s) \<leftarrow> send_setup K src dst pid proxy k vs nh s; Some (0, s) }
        else do {
          (added, s) \<leftarrow> vrr_add K src k vs s;
          if added \<noteq> 0 then do { me \<leftarrow> vrr_get_node s; Some (0, s\<lparr>vrr := Some (me\<lparr>vn_active := 1\<rparr>)\<rparr>) } else Some (0, s) }) = Some (r, t)"
proof (cases "sz \<le> of_nat VRR_VSET_SIZE")
  case False
  then show ?thesis by (simp add: read_vset_def not_le)
next
  case True
  define vs where "vs = read_u32s skb off (unat sz) (k_junk K (Suc (clock (io s))))"
  let ?u = "tick (tick s)"
  have r: "read_vset K skb off sz 0 s = (Some (unat sz, vs), ?u)" using read_vset_run [OF assms(2) True, of skb off 0 s] by (simp add: vs_def)
  have cu: "can_add ?u n" using can_add_io_only [OF io_only_tick2, of s n] assms(3) by simp
  have lv: "length vs = unat sz" by (simp add: vs_def)
  have "unat sz \<le> 4" using True by (simp add: word_le_nat_alt)
  then have sm: "4 * (unat sz + 3) \<le> INT_MAX" by (simp add: INT_MAX_def)
  show ?thesis
  proof (cases "nh = 0")
    case False
    have "can_send ?u n" using cu by (simp add: can_add_def)
    then obtain r' t where "send_setup K src dst pid proxy (unat sz) vs nh ?u = Some (r', t)"
      using send_total(1) [OF _ assms(2) lv sm] by blast
    then show ?thesis using False r by simp
  next
    case True
    obtain a t where 2: "vrr_add K src (unat sz) vs ?u = Some (a, t)" using vrr_add_total [OF cu assms(2,1), of "unat sz" vs src] lv by auto
    have "vset_inv ?u" using cu by (simp add: can_add_def can_send_def)
    then have "vset_only ?u t" using vrr_add_effect [OF 2 assms(1)] by simp
    then have "vrr t = Some n" using cu vset_only_sel(5) by (metis can_add_def can_send_def)
    then show ?thesis using True r 2 by (simp add: vrr_get_node_def)
  qed
qed

lemma setup_total:
  assumes "rb_keeps_order K" "sort_by_address K" "\<forall>i. k_alloc K i" "sys_core s" "4 * (vset_size s + 3) \<le> INT_MAX"
  shows "\<exists>r t. vrr_rcv_setup K skb h s = Some (r, t)"
proof -
  obtain n where n: "can_add s n" "vrr s = Some n" "vn_id n = ME s" by (rule sys_core_can_add [OF assms(4,5)])
  let ?s1 = "tick s"
  have net1: "net ?s1" using net_io [OF io_only_tick sys_core_net [OF assms(4)]] .
  have c1: "can_send ?s1 n" using can_send_io_only [OF io_only_tick, of s n] n(1) by (simp add: can_add_def)
  have l1: "unlocked s" using n(1) by (simp add: can_add_def can_send_def)
  define pid where "pid = read_u32 skb sizeof_vrr_header (k_junk K (clock (io s)) 0)"
  define proxy where "proxy = read_u32 skb (sizeof_vrr_header + 4) (k_junk K (clock (io s)) 1)"
  define sz where "sz = read_u32 skb (sizeof_vrr_header + 8) (k_junk K (clock (io s)) 2)"
  define nh where "nh = (if link_status ?s1 (dest_id h) = PSET_UNKNOWN
     then if dest_id h = ME s then 0 else rt_search (ME ?s1) (rt_root ?s1) proxy else dest_id h)"
  define sender where "sender = (if skb_dev_addr skb = skb_src_mac skb then Some (ME s)
     else map_option pl_node (first_match (\<lambda>e. skb_src_mac skb = pl_mac e) (pset ?s1)))"
  have snd: "(if skb_dev_addr skb = skb_src_mac skb then do { me \<leftarrow> get_vrr_id ?s1; Some (Some me, ?s1) }
      else pset_lookup_mac (skb_src_mac skb) ?s1) = Some (sender, ?s1)"
    using n(2,3) l1 unfolding sender_def by (simp add: get_vrr_id_def pset_lookup_mac_run)
  have st: "pset_get_status (dest_id h) ?s1 = Some (link_status ?s1 (dest_id h), ?s1)" using l1 by (simp add: pset_get_status_run)
  have hop: "(if link_status ?s1 (dest_id h) = PSET_UNKNOWN then do {
        me \<leftarrow> vrr_get_node ?s1; if dest_id h = vn_id me then Some (0, ?s1) else rt_get_next proxy ?s1 }
      else Some (dest_id h, ?s1)) = Some (nh, ?s1)"
    using n(2,3) l1 unfolding nh_def by (simp add: vrr_get_node_def rt_get_next_run)
  show ?thesis
  proof (cases sender)
    case None
    obtain r t where "tear_down_path K pid (src_id h) 0 ?s1 = Some (r, t)" using tear_down_path_total [OF c1 assms(3)] by blast
    then show ?thesis using snd None by (simp add: vrr_rcv_setup_def uninit_def Let_def pid_def)
  next
    case (Some x)
    obtain s2 where 2: "rt_add_route K (src_id h) (dest_id h) x nh pid ?s1 = Some (1, s2)" "s2 = ?s1\<lparr>io := io s2, rt_root := rt_root s2\<rparr>"
      by (rule rt_add_route_ok [OF assms(1) net1 assms(3)])
    obtain i r where s2: "s2 = ?s1\<lparr>io := i, rt_root := r\<rparr>" using 2(2) by blast
    have c2: "can_add s2 n"
      using n(1) by (simp add: s2 tick_def can_add_def can_send_def unlocked_def pset_inv_def vset_inv_def proxies_def)
    have "vrr_rcv_setup K skb h s = (case read_vset K skb (sizeof_vrr_header + 12) sz 0 s2 of
        (None, s) \<Rightarrow> Some (-1 :: int, s)
      | (Some (k, vs), s) \<Rightarrow>
          if nh \<noteq> 0 then do { (_, s) \<leftarrow> send_setup K (src_id h) (dest_id h) pid proxy k vs nh s; Some (0, s) }
          else do {
            (added, s) \<leftarrow> vrr_add K (src_id h) k vs s;
            if added \<noteq> 0 then do { me \<leftarrow> vrr_get_node s; Some (0, s\<lparr>vrr := Some (me\<lparr>vn_active := 1\<rparr>)\<rparr>) } else Some (0, s) })"
      by (simp only: vrr_rcv_setup_def uninit_def Let_def prod.case pid_def [symmetric] proxy_def [symmetric] sz_def [symmetric]
          snd Some st hop 2(1) bind.bind_lunit option.case one_neq_zero if_False)
    then show ?thesis using setup_tail_total [OF assms(2,3) c2] by simp
  qed
qed

section \<open>Data\<close>

lemma data_total:
  assumes "sys_core s" "sizeof_vrr_header \<le> length (skb_data skb)"
  shows "\<exists>r t. vrr_rcv_data K R skb h s = Some (r, t)"
proof -
  obtain n where n: "can_send s n" "vrr s = Some n" by (rule sys_core_can_send [OF assms(1)])
  have st: "\<not> held s vrr_socks_lock" "socks_inv s" using assms(1) by (simp_all add: sys_core_def net_def)
  obtain x s1 where f: "vrr_find_sock (src_id h) s = Some (x, s1)" using vrr_find_sock_run [OF st, of "src_id h"] by blast
  obtain r t where fw: "vrr_forward K skb h s = Some (r, t)" using forward_total(1) [OF n(1) assms(2)] by blast
  show ?thesis
    using n(2) f fw by (cases "dest_id h = vn_id n"; cases x) (auto simp: vrr_rcv_data_def get_vrr_id_def split_beta)
qed

lemma u8_less_6: "x < (6 :: u8) \<Longrightarrow> x \<in> {0, 1, 2, 3, 4, 5}"
proof -
  assume "x < 6"
  then have "unat x \<in> {..<6}" by (simp add: word_less_nat_alt)
  moreover have "{..<6} = {0, 1, 2, 3, 4, 5 :: nat}" by auto
  ultimately have "(of_nat (unat x) :: u8) \<in> of_nat ` {0, 1, 2, 3, 4, 5}" by blast
  then show ?thesis by simp
qed

section \<open>Properties\<close>



end
