(* ===== verification/Relay.thy ===== *)
theory Relay
  imports Robust
begin

text \<open>
  Paths of more than one hop: a setup request passed on towards its destination, a setup that installs
  a route at every node on its way, and the search that leaves out the source of a request.
\<close>

section \<open>A setup on its way\<close>

lemma setup_relayed:
  fixes proxy :: u32
  assumes "rb_keeps_order K" "sys_core s" "\<forall>i. k_alloc K i"
    and "carries h ([pid, proxy, of_nat k] @ vs) (skb_data skb)" "length vs = k" "k \<le> 4" "skb_dev_addr skb \<noteq> skb_src_mac skb"
    and "first_match (\<lambda>e. skb_src_mac skb = pl_mac e) (pset s) = Some e" "vrr s = Some n"
  defines "nh \<equiv> setup_exit s (dest_id h) proxy"
  assumes "nh \<noteq> 0" "neighbour s nh = Some hop"
  obtains t where "vrr_rcv_setup K skb h s = Some (0, t)"
    "rt_routes (rt_root t) = route_added \<lparr>ea = src_id h, eb = dest_id h, na = pl_node e, nb = nh, path_id = pid\<rparr> (rt_routes (rt_root s))"
    "t = s\<lparr>io := io t, rt_root := rt_root t\<rparr>"
    "message K (vn_dev_list n) (msg_header n (src_id h) (dest_id h) VRR_SETUP (pl_mac hop) (k + 3)) ([pid, proxy, of_nat k] @ vs) s t"
proof -
  let ?ws = "[pid, proxy, of_nat k] @ vs"
  have n: "can_send s n" using sys_core_can_send [OF assms(2)] assms(9) by auto
  obtain u where u: "tx (io u) = tx (io s)" "u = s\<lparr>io := io u, rt_root := rt_root u\<rparr>"
      "rt_routes (rt_root u) = route_added \<lparr>ea = src_id h, eb = dest_id h, na = pl_node e, nb = nh, path_id = pid\<rparr> (rt_routes (rt_root s))"
    and eq: "vrr_rcv_setup K skb h s = do { (_, t) \<leftarrow> send_setup K (src_id h) (dest_id h) pid proxy k vs nh u; Some (0, t) }"
    by (rule setup_recorded [OF assms(1-8)], fold nh_def) (rule that, assumption+, use assms(11) in simp)
  obtain i r where ur: "u = s\<lparr>io := i, rt_root := r\<rparr>" using u(2) by blast
  have c: "can_send u n" "neighbour u nh = Some hop" using n assms(12) by (simp_all add: ur can_send_root neighbour_def)
  have l: "unlocked u" "4 * (k + 3) \<le> INT_MAX" "length ?ws = k + 3" using c(1) assms(5,6) by (simp_all add: can_send_def INT_MAX_def)
  obtain t where t: "alloc_and_output K ?ws (Some (src_id h)) (dest_id h) VRR_SETUP (pl_mac hop) u = Some (0, t)" "io_only u t"
      "message K (vn_dev_list n) (msg_header n (src_id h) (dest_id h) VRR_SETUP (pl_mac hop) (k + 3)) ?ws u t"
    by (rule alloc_and_output_to [OF c(1) assms(3) c(2), of ?ws "src_id h" "dest_id h" VRR_SETUP]) (simp only: l(3))
  obtain j where j: "t = u\<lparr>io := j\<rparr>" by (rule io_onlyE [OF t(2)])
  have "vrr_rcv_setup K skb h s = Some (0, t)" using eq t(1) send_to_neighbour_eq(1) [OF l(1) c(2) assms(5) l(2)] by simp
  moreover have "message K (vn_dev_list n) (msg_header n (src_id h) (dest_id h) VRR_SETUP (pl_mac hop) (k + 3)) ?ws s t"
    using t(3) u(1) by (simp add: message_def sent_def)
  ultimately show ?thesis using that u(3) by (simp add: j ur)
qed

lemma setup_relay_run:
  fixes proxy :: u32
  assumes "rb_keeps_order K" "sort_by_address K" "sys_inv s" "\<forall>i. k_alloc K i" "vrr s = Some n"
    and "carries h ([pid, proxy, of_nat k] @ vs) (skb_data skb)" "length vs = k" "k \<le> 4" "pkt_type h = VRR_SETUP" "pid \<noteq> 0"
    and "skb_dev_addr skb \<noteq> skb_src_mac skb" "pset_lookup_mac (skb_src_mac skb) s = Some (Some x, s)"
    and "neighbour s (dest_id h) = Some hop" "distinct [0, ME s, src_id h, dest_id h]"
    and "rt_routes (rt_root s) (src_id h) = None" "rt_routes (rt_root s) (dest_id h) = None"
  obtains t where "vrr_rcv K R skb s = Some (NET_RX_SUCCESS, t)" "sys_inv t" "vset t = vset s"
    "rt_get_next (src_id h) t = Some (x, t)" "rt_get_next (dest_id h) t = Some (dest_id h, t)"
    "message K (vn_dev_list n) (msg_header n (src_id h) (dest_id h) VRR_SETUP (pl_mac hop) (k + 3)) ([pid, proxy, of_nat k] @ vs) s t"
proof -
  let ?s = "heard (src_id h) s"
  have hd: "vrr_hdr skb = Some h" by (rule carries_hdr [OF assms(6)])
  have lt: "pkt_type h < VRR_NPTYPES" using assms(9) by (simp add: word_less_nat_alt)
  have inv: "sys_inv ?s" by (rule vrr_rcv_dispatch(1) [OF assms(3) hd lt])
  have core: "sys_core s" "sys_core ?s" using inv assms(3) by (simp_all add: sys_inv_def)
  have "map_option pl_node (first_match (\<lambda>e. skb_src_mac skb = pl_mac e) (pset ?s)) = Some x"
    using assms(12) core(1) by (simp add: pset_lookup_mac_run heard_lookup_mac sys_core_def net_def)
  then obtain e where e: "first_match (\<lambda>e. skb_src_mac skb = pl_mac e) (pset ?s) = Some e" "pl_node e = x" by auto
  have hop: "setup_exit ?s (dest_id h) proxy = dest_id h"
    using assms(13,14) core(1) by (auto simp: setup_exit_def setup_hop_def sys_core_def dest: link_status_new)
  have "dest_id h \<noteq> src_id h" using assms(14) by auto
  then have ht: "neighbour ?s (dest_id h) = Some hop" using assms(13) by (simp add: heard_neighbour)
  have vn: "vrr ?s = Some (n\<lparr>vn_timeout := 0\<rparr>)" using assms(5) by simp
  obtain t where t: "vrr_rcv_setup K skb h ?s = Some (0, t)"
      "rt_routes (rt_root t) = route_added \<lparr>ea = src_id h, eb = dest_id h, na = pl_node e, nb = dest_id h, path_id = pid\<rparr> (rt_routes (rt_root ?s))"
      "t = ?s\<lparr>io := io t, rt_root := rt_root t\<rparr>"
      "message K (vn_dev_list (n\<lparr>vn_timeout := 0\<rparr>)) (msg_header (n\<lparr>vn_timeout := 0\<rparr>) (src_id h) (dest_id h) VRR_SETUP (pl_mac hop) (k + 3))
         ([pid, proxy, of_nat k] @ vs) ?s t"
    by (rule setup_relayed [OF assms(1) core(2) assms(4,6-8,11) e(1) vn, of hop]) (use assms(14) hop ht in auto)
  obtain i r where tr: "t = ?s\<lparr>io := i, rt_root := r\<rparr>" using t(3) by blast
  have it: "sys_inv t" by (rule sys_inv_keeps [OF rcv_setup_keeps [OF assms(1,2)] inv t(1)])
  have l: "\<not> held t vrr_rt_lock" and me: "ME t = ME s" using it by (simp_all add: sys_inv_def sys_core_def net_def) (simp add: tr)
  have nx: "rt_search (ME t) (rt_root t) (src_id h) = x" "rt_search (ME t) (rt_root t) (dest_id h) = dest_id h"
    using first_route [OF t(2), of "src_id h"] first_route [OF t(2), of "dest_id h"] assms(10,14-16) e(2) me by auto
  show ?thesis
  proof (rule that [OF vrr_rcv_setup_eq [OF assms(3) hd assms(9) t(1)] it])
    show "rt_get_next (src_id h) t = Some (x, t)" "rt_get_next (dest_id h) t = Some (dest_id h, t)"
      by (simp_all add: rt_get_next_run [OF l] nx)
    show "message K (vn_dev_list n) (msg_header n (src_id h) (dest_id h) VRR_SETUP (pl_mac hop) (k + 3)) ([pid, proxy, of_nat k] @ vs) s t"
      using t(4) by (simp add: message_def sent_def msg_header_def header_for_def)
  qed (simp add: tr)
qed

section \<open>The search without the source\<close>

lemma exclude_absent:
  "src \<notin> endpoint ` set_tree t \<Longrightarrow> rt_search_exclude me prev t e src = rt_search me t e"
  by (induction t arbitrary: prev) auto

lemma exclude_present:
  "rt_routes t e \<noteq> None \<Longrightarrow> endpoint p \<noteq> e \<Longrightarrow>
    \<exists>q \<in> insert p (set_tree t). endpoint q \<noteq> e \<and> rt_search_exclude me (Some p) t e e = route_list_search me (routes q) e"
proof (induction t arbitrary: p)
  case (Node l a r)
  then show ?case
    by (cases "endpoint a = e") (fastforce dest: Node.IH [of a] split: if_splits)+
qed simp

section \<open>Properties\<close>

text \<open>
  C21: a path over a relay. A relay that knows the destination as a neighbour receives a setup from \<open>b\<close> for a
  node \<open>A\<close>, both new to its table. It records the path, so that it routes to \<open>b\<close> over the neighbour the
  packet came from and to \<open>A\<close> directly, leaves its virtual set alone and passes the setup on, with the
  path identifier and the virtual set it carries, to the address of \<open>A\<close> on every interface. When \<open>A\<close>
  receives that packet it takes \<open>b\<close> into its virtual set, routes to \<open>b\<close> over the relay and is active.
\<close>

theorem path_over_relay:
  fixes sR :: "'r input_globals_scheme" and sA :: "'a input_globals_scheme"
  assumes "rb_keeps_order KR" "sort_by_address KR" "\<forall>i. k_alloc KR i" "rb_keeps_order KA" "sort_by_address KA" "\<forall>i. k_alloc KA i"
    and "sys_inv sR" "carries h ([pid, proxy, of_nat (length vs)] @ vs) (skb_data skb)" "length vs \<le> 4" "pid \<noteq> 0"
    and "pkt_type h = VRR_SETUP" "src_id h = b" "dest_id h = ME sA" "skb_dev_addr skb \<noteq> skb_src_mac skb"
    and "pset_lookup_mac (skb_src_mac skb) sR = Some (Some x, sR)" "neighbour sR (ME sA) = Some eA"
    and "distinct [0, ME sR, b, ME sA]" "rt_routes (rt_root sR) b = None" "rt_routes (rt_root sR) (ME sA) = None"
    and "ready_for b sA" "link_status sA (ME sA) = PSET_UNKNOWN"
  shows "\<exists>sR' fs. vrr_rcv KR RR skb sR = Some (NET_RX_SUCCESS, sR') \<and> sys_inv sR' \<and> vset sR' = vset sR
     \<and> rt_get_next b sR' = Some (x, sR') \<and> rt_get_next (ME sA) sR' = Some (ME sA, sR')
     \<and> tx (io sR') = tx (io sR) @ fs \<and> (\<forall>n. vrr sR = Some n \<longrightarrow> map fr_dev fs = live KR (vn_dev_list n))
     \<and> (\<forall>f \<in> set fs. fr_dest f = pl_mac eA \<and> (\<forall>skb'. skb_data skb' = fr_data f \<and> skb_dev_addr skb' \<noteq> skb_src_mac skb'
           \<and> pset_lookup_mac (skb_src_mac skb') sA = Some (Some (ME sR), sA) \<longrightarrow>
          (\<exists>sA' n. vrr_rcv KA RA skb' sA = Some (NET_RX_SUCCESS, sA') \<and> sys_inv sA' \<and> in_vset sA' b
             \<and> rt_get_next b sA' = Some (ME sR, sA') \<and> vrr sA' = Some n \<and> vn_active n = 1)))"
proof -
  obtain n where n: "vrr sR = Some n" using assms(7) by (auto simp: sys_inv_def elim: sys_core_can_send)
  let ?h = "msg_header n b (ME sA) VRR_SETUP (pl_mac eA) (length vs + 3)"
  obtain t where t: "vrr_rcv KR RR skb sR = Some (NET_RX_SUCCESS, t)" "sys_inv t" "vset t = vset sR"
      "rt_get_next b t = Some (x, t)" "rt_get_next (ME sA) t = Some (ME sA, t)"
      "message KR (vn_dev_list n) ?h ([pid, proxy, of_nat (length vs)] @ vs) sR t"
    by (rule setup_relay_run [OF assms(1,2,7,3) n assms(8) refl assms(9,11,10,14,15), where hop = eA and R = RR, unfolded assms(12,13),
          OF assms(16-19)])
  obtain fs where fs: "tx (io t) = tx (io sR) @ fs" "map fr_dev fs = live KR (vn_dev_list n)"
      "\<forall>f \<in> set fs. carries ?h ([pid, proxy, of_nat (length vs)] @ vs) (fr_data f) \<and> fr_dest f = pl_mac eA"
    by (rule message_frames [OF t(6)]) (use assms(3) in simp)
  have "\<exists>sA' n. vrr_rcv KA RA skb' sA = Some (NET_RX_SUCCESS, sA') \<and> sys_inv sA' \<and> in_vset sA' b
      \<and> rt_get_next b sA' = Some (ME sR, sA') \<and> vrr sA' = Some n \<and> vn_active n = 1"
    if "f \<in> set fs" "skb_data skb' = fr_data f" "skb_dev_addr skb' \<noteq> skb_src_mac skb'"
      "pset_lookup_mac (skb_src_mac skb') sA = Some (Some (ME sR), sA)" for f skb'
  proof -
    have c: "carries ?h ([pid, proxy, of_nat (length vs)] @ vs) (skb_data skb')" and r: "ready_for (src_id ?h) sA"
      using fs(3) that(1,2) assms(20) by simp_all
    show ?thesis
      by (rule setup_completed [OF assms(4-6) r c refl assms(9) _ _ assms(10,21) that(3,4), of RA]) auto
  qed
  then show ?thesis using t(1-5) fs n by (intro exI [of _ t] exI [of _ fs]) auto
qed

theorem path_over_relay_witness:
  "\<exists>sR' f. vrr_rcv demo_env (\<lambda>i skb s. (0, s)) (demo_skb (demo_header VRR_SETUP 9 7) [3, 5, 1, 4]) demo_input = Some (NET_RX_SUCCESS, sR')
     \<and> rt_get_next 9 sR' = Some (8, sR') \<and> tx (io sR') = [f]
     \<and> (\<exists>sA'. vrr_rcv demo_env (\<lambda>i skb s. (0, s)) \<lparr>skb_id = 0, skb_data = fr_data f, skb_src_mac = [2, 0, 0, 0, 0, 5], skb_dev_addr = []\<rparr> demo_joiner
           = Some (NET_RX_SUCCESS, sA') \<and> rt_get_next 9 sA' = Some (5, sA'))"
proof -
  let ?skb = "demo_skb (demo_header VRR_SETUP 9 7) [3, 5, 1, 4]"
  have al: "\<forall>i. k_alloc demo_env i" by simp
  have c: "carries (demo_header VRR_SETUP 9 7) ([3, 5, of_nat (length [4 :: u32])] @ [4]) (skb_data ?skb)"
    using demo_skb_carries [of VRR_SETUP 9 7 "[3, 5, 1, 4]"] by simp
  have h: "pkt_type (demo_header VRR_SETUP 9 7) = VRR_SETUP" "src_id (demo_header VRR_SETUP 9 7) = 9"
      "dest_id (demo_header VRR_SETUP 9 7) = ME demo_joiner" "skb_dev_addr ?skb \<noteq> skb_src_mac ?skb"
    using demo_join_ready(3) by (simp_all add: demo_header_def demo_skb_def)
  have eq: "rt_root demo_joiner = \<langle>\<rangle>" "vset demo_joiner = []" "vset_size demo_joiner = 0" "rt_root demo_input = \<langle>\<rangle>" "tx (io demo_input) = []"
      "vn_dev_list (the (vrr demo_input)) = [''wlan0'']" "vrr demo_input \<noteq> None" "\<not> held demo_input l" "\<not> held demo_joiner l" for l
    by (simp_all add: demo_joiner_def demo_peer_def demo_input_defs idle_io_def)
  have lk: "pset_lookup_mac (skb_src_mac ?skb) demo_input = Some (Some 8, demo_input)"
      "pset_lookup_mac [2, 0, 0, 0, 0, 5] demo_joiner = Some (Some (ME demo_input), demo_joiner)"
    using demo_join_ready(4)
    by (simp_all add: pset_lookup_mac_run eq) (simp_all add: demo_skb_def demo_joiner_def demo_input_defs demo_entry_def)
  have nb: "neighbour demo_input (ME demo_joiner) = Some (demo_entry 7 PSET_LINKED)" "link_status demo_joiner (ME demo_joiner) = PSET_UNKNOWN"
      "distinct [0, ME demo_input, 9, ME demo_joiner]" "rt_routes (rt_root demo_input) 9 = None" "rt_routes (rt_root demo_input) (ME demo_joiner) = None"
    using demo_join_ready(3-6) by (simp_all add: eq)
  have rd: "ready_for 9 demo_joiner" using demo_join_ready(3) by (simp add: ready_for_def eq in_vset_def UINT_MAX_def)
  obtain sR' fs where r: "vrr_rcv demo_env (\<lambda>i skb s. (0, s)) ?skb demo_input = Some (NET_RX_SUCCESS, sR')" "rt_get_next 9 sR' = Some (8, sR')"
      "tx (io sR') = fs" "map fr_dev fs = live demo_env [''wlan0'']"
    and a: "\<forall>f \<in> set fs. fr_dest f = pl_mac (demo_entry 7 PSET_LINKED) \<and> (\<forall>skb'. skb_data skb' = fr_data f \<and> skb_dev_addr skb' \<noteq> skb_src_mac skb'
        \<and> pset_lookup_mac (skb_src_mac skb') demo_joiner = Some (Some (ME demo_input), demo_joiner) \<longrightarrow>
        (\<exists>sA' n. vrr_rcv demo_env (\<lambda>i skb s. (0, s)) skb' demo_joiner = Some (NET_RX_SUCCESS, sA') \<and> sys_inv sA' \<and> in_vset sA' 9
           \<and> rt_get_next 9 sA' = Some (ME demo_input, sA') \<and> vrr sA' = Some n \<and> vn_active n = 1))"
    using path_over_relay [OF demo_env_laws al demo_env_laws al demo_input_ok c _ _ h lk(1) nb(1,3-5) rd nb(2),
        of "\<lambda>i skb s. (0, s)" "\<lambda>i skb s. (0, s)"] eq(5-7) by auto
  obtain f where f: "fs = [f]" using r(4) by (auto simp: live_def)
  have "\<exists>sA'. vrr_rcv demo_env (\<lambda>i skb s. (0, s)) \<lparr>skb_id = 0, skb_data = fr_data f, skb_src_mac = [2, 0, 0, 0, 0, 5], skb_dev_addr = []\<rparr> demo_joiner
           = Some (NET_RX_SUCCESS, sA') \<and> rt_get_next 9 sA' = Some (ME demo_input, sA')"
    using a [rule_format, of f, THEN conjunct2, rule_format,
        of "\<lparr>skb_id = 0, skb_data = fr_data f, skb_src_mac = [2, 0, 0, 0, 0, 5], skb_dev_addr = []\<rparr>"] lk(2) f by auto
  then show ?thesis using r(1-3) f demo_join_ready(4) by auto
qed

text \<open>
  C25: passing on a setup request. A request for which the search without its source names a hop goes on
  unchanged but for the Ethernet destination, and its buffer is released once; routes and virtual set
  stay as they are. If the hop is no neighbour the request is lost without an error and its buffer is
  never released.
\<close>

theorem request_passed_on:
  assumes "sys_inv s" "vrr s = Some n" "skb_data skb = header_bytes pad h @ bytes" "length (dest_mac h) = ETH_ALEN"
    and "pkt_type h = VRR_SETUP_REQ" "rt_search_exclude (ME s) None (rt_root s) (dest_id h) (src_id h) = nh" "nh \<noteq> 0"
  shows "\<exists>t fs. vrr_rcv K R skb s = Some (NET_RX_SUCCESS, t) \<and> io_only (heard (src_id h) s) t \<and> tx (io t) = tx (io s) @ fs
     \<and> (case neighbour s nh of
          None \<Rightarrow> fs = [] \<and> skb_users (io t) = skb_users (io s)
        | Some e \<Rightarrow> (\<forall>f \<in> set fs. fr_data f = header_bytes pad (h\<lparr>dest_mac := pl_mac e\<rparr>) @ bytes \<and> fr_dest f = pl_mac e)
            \<and> ((\<forall>i. k_alloc K i) \<longrightarrow> map fr_dev fs = live K (vn_dev_list n))
            \<and> skb_users (io t) = (skb_users (io s))(skb_id skb := skb_users (io s) (skb_id skb) - 1))"
proof -
  let ?s = "heard (src_id h) s" let ?s1 = "tick ?s"
  have hd: "vrr_hdr skb = Some h" using assms(3,4) by (simp add: vrr_hdr_def parse_header_bytes)
  have inv: "sys_inv ?s" by (rule vrr_rcv_dispatch(1) [OF assms(1) hd]) (use assms(5) in \<open>simp add: word_less_nat_alt\<close>)
  have l: "\<not> held ?s1 vrr_rt_lock" "\<not> held ?s1 vrr_pset_lock" and ps: "pset_inv ?s"
    using assms(1) inv by (simp_all add: sys_inv_def sys_core_def net_def)
  have ex: "rt_get_next_exclude (dest_id h) (src_id h) ?s1 = Some (nh, ?s1)"
    using rt_get_next_exclude_run [OF l(1), of "dest_id h" "src_id h"] assms(6) by (simp add: tick_def)
  have eq: "vrr_rcv_setup_req K skb h ?s = do { (_, t) \<leftarrow> vrr_forward_setup_req K skb h nh ?s1; Some (0, t) }"
    using ex assms(7) by (simp add: vrr_rcv_setup_req_def uninit_def Let_def)
  note run = vrr_rcv_setup_req_eq [OF assms(1) hd assms(5), of K _ R]
  have v: "vrr ?s1 = Some (n\<lparr>vn_timeout := 0\<rparr>)" using assms(2) by simp
  show ?thesis
  proof (cases "neighbour ?s nh")
    case None
    then have "vrr_rcv_setup_req K skb h ?s = Some (0, ?s1)" "neighbour s nh = None"
      using eq l(2) by (simp_all add: vrr_forward_setup_req_def pset_get_mac_run heard_neighbour split: if_splits)
    then show ?thesis using run by (auto simp: tick_def io_only_def)
  next
    case (Some e)
    then obtain e' where e': "neighbour s nh = Some e'" "pl_mac e' = pl_mac e" by (auto simp: heard_neighbour split: if_splits)
    obtain t where t: "vrr_forward_setup_req K skb h nh ?s1 = Some (NET_XMIT_SUCCESS, t)" "io_only ?s1 t"
        "sent K (header_bytes pad (h\<lparr>dest_mac := pl_mac e\<rparr>) @ bytes) (pl_mac e) (vn_dev_list n) ?s1 t"
        "skb_users (io t) = (skb_users (io ?s1))(skb_id skb := skb_users (io ?s1) (skb_id skb) - 1)"
      using readdressed_output [OF v assms(3,4) neighbour_mac_length [OF ps Some], of K VRR_SETUP_REQ] Some l(2)
      by (auto simp: vrr_forward_setup_req_def pset_get_mac_run)
    have "vrr_rcv K R skb s = Some (NET_RX_SUCCESS, t)" "io_only ?s t" using run eq t(1) io_only_trans [OF io_only_tick t(2)] by simp_all
    then show ?thesis using t(3,4) e' by (fastforce simp: sent_def frames_of_def)
  qed
qed

theorem request_passed_on_witness:
  "\<exists>t f. vrr_rcv demo_env (\<lambda>i skb s. (0, s)) (demo_skb (demo_header VRR_SETUP_REQ 9 7) [8, 0]) demo_sender = Some (NET_RX_SUCCESS, t)
     \<and> tx (io t) = [f] \<and> fr_dest f = [2, 0, 0, 0, 0, 7]"
proof -
  let ?h = "demo_header VRR_SETUP_REQ 9 7"
  obtain n where n: "vrr demo_sender = Some n" "vn_dev_list n = [''wlan0'']" "tx (io demo_sender) = []"
    by (simp add: demo_sender_def demo_input_defs idle_io_def)
  have d: "skb_data (demo_skb ?h [8, 0]) = header_bytes (\<lambda>i. 0) ?h @ be32s [8, 0]" "length (dest_mac ?h) = ETH_ALEN" "pkt_type ?h = VRR_SETUP_REQ"
    by (simp_all add: demo_skb_def demo_header_def)
  have x: "rt_search_exclude (ME demo_sender) None (rt_root demo_sender) (dest_id ?h) (src_id ?h) = 7"
    by (simp add: demo_header_def) (simp add: demo_sender_def route_list_search_def get_diff_def Let_def word_less_nat_alt)
  have nb: "neighbour demo_sender 7 = Some (demo_entry 7 PSET_LINKED)" by (simp add: demo_sender_def demo_input_defs neighbour_def demo_entry_def)
  obtain t fs where "vrr_rcv demo_env (\<lambda>i skb s. (0, s)) (demo_skb ?h [8, 0]) demo_sender = Some (NET_RX_SUCCESS, t)" "tx (io t) = fs"
      "\<forall>f \<in> set fs. fr_dest f = [2, 0, 0, 0, 0, 7]" "map fr_dev fs = [''wlan0'']"
    using request_passed_on [OF demo_sender_ok(1) n(1) d x, of demo_env "\<lambda>i skb s. (0, s)"] n(2,3) nb by (auto simp: demo_entry_def live_def)
  then show ?thesis by auto
qed



end
