(* ===== verification/Admin.thy ===== *)
theory Admin
  imports Relay
begin

text \<open>
  What an administrator sees of the module: the text of the sysfs files and what loading and unloading
  leave registered.
\<close>

section \<open>Hexadecimal text\<close>

definition hex_value :: "char \<Rightarrow> nat" where
  "hex_value c = (let n = of_char c in if n < 58 then n - 48 else n - 87)"

definition unhex :: "string \<Rightarrow> nat" where
  "unhex cs = foldl (\<lambda>x c. 16 * x + hex_value c) 0 cs"

lemma length_hex [simp]: "length (hex k x) = k"
  by (induction k arbitrary: x) simp_all

lemma hex_value_digit: "hex_value (hex_digit n) = n mod 16"
proof -
  have "n mod 16 = 0 \<or> n mod 16 = 1 \<or> n mod 16 = 2 \<or> n mod 16 = 3 \<or> n mod 16 = 4 \<or> n mod 16 = 5 \<or> n mod 16 = 6 \<or> n mod 16 = 7
      \<or> n mod 16 = 8 \<or> n mod 16 = 9 \<or> n mod 16 = 10 \<or> n mod 16 = 11 \<or> n mod 16 = 12 \<or> n mod 16 = 13 \<or> n mod 16 = 14 \<or> n mod 16 = 15"
    by presburger
  then show ?thesis unfolding hex_digit_def by (elim disjE) (simp_all add: hex_value_def)
qed

lemma unhex_hex: "x < 16 ^ k \<Longrightarrow> unhex (hex k x) = x"
proof (induction k arbitrary: x)
  case (Suc k)
  then have "unhex (hex k (x div 16)) = x div 16" by (simp add: less_mult_imp_div_less)
  then show ?case by (simp add: unhex_def hex_value_digit)
qed (simp add: unhex_def)

lemma length_mac_text: "length m = 6 \<Longrightarrow> length (mac_text m) = 17"
  using list_length6 [of m] by auto

lemma length_pset_line: "length m = 6 \<Longrightarrow> length (pset_line v m) = 27"
  by (simp add: pset_line_def length_mac_text)

section \<open>The physical set files\<close>

definition pset_text :: "pset_entry list \<Rightarrow> string" where
  "pset_text es = concat (map (\<lambda>e. pset_line (pl_node e) (pl_mac e)) es)"

lemma length_pset_text: "\<forall>e \<in> set es. length (pl_mac e) = 6 \<Longrightarrow> length (pset_text es) = 27 * length es"
  by (induction es) (simp_all add: pset_text_def length_pset_line)

lemma show_class:
  assumes "class_mirrors n m ids macs es" "length es \<le> VRR_PSET_SIZE" "length ids = VRR_PSET_SIZE" "length macs = VRR_PSET_SIZE"
  shows "pset_show_real ids (n * 4) macs (m * ETH_ALEN) = Some (27 * int (length es) + 1, pset_text es)"
proof -
  have "concat (map2 pset_line (map pl_node es) (map pl_mac es)) = pset_text es"
    by (induction es) (simp_all add: pset_text_def)
  then show ?thesis using assms by (auto simp: class_mirrors_def pset_show_real_def arr_prefix_def Let_def)
qed

lemma pset_files:
  assumes "pset_inv s" "core_inv s"
  shows "pset_active_show s = Some (27 * int (length (filter linked_active (pset s))) + 1, pset_text (filter linked_active (pset s)))"
    "pset_not_active_show s = Some (27 * int (length (filter linked_inactive (pset s))) + 1, pset_text (filter linked_inactive (pset s)))"
    "pset_pending_show s = Some (27 * int (length (filter link_pending (pset s))) + 1, pset_text (filter link_pending (pset s)))"
proof -
  obtain ps where ps: "pstate s = Some ps" "arrays_ok ps" "mirrors ps (pset s)" using assms(2) by (auto simp: core_inv_def pstate_ok_def)
  have len: "fits (pset s)" by (rule mirrors_fits [OF ps(2,3)])
  note cls = show_class [of "la_size ps" "lam_size ps" "l_active ps" "la_mac ps" "filter linked_active (pset s)"]
    show_class [of "lna_size ps" "lnam_size ps" "l_not_active ps" "lna_mac ps" "filter linked_inactive (pset s)"]
    show_class [of "p_size ps" "pm_size ps" "pending ps" "pending_mac ps" "filter link_pending (pset s)"]
  show "pset_active_show s = Some (27 * int (length (filter linked_active (pset s))) + 1, pset_text (filter linked_active (pset s)))"
    using cls(1) ps len by (simp add: pset_active_show_def get_pset_active_def get_pset_active_size_def get_pset_active_mac_def
        get_pset_active_mac_size_def mirrors_def arrays_ok_def fits_def)
  show "pset_not_active_show s = Some (27 * int (length (filter linked_inactive (pset s))) + 1, pset_text (filter linked_inactive (pset s)))"
    using cls(2) ps len by (simp add: pset_not_active_show_def get_pset_not_active_def get_pset_not_active_size_def
        get_pset_not_active_mac_def get_pset_not_active_mac_size_def mirrors_def arrays_ok_def fits_def)
  show "pset_pending_show s = Some (27 * int (length (filter link_pending (pset s))) + 1, pset_text (filter link_pending (pset s)))"
    using cls(3) ps len by (simp add: pset_pending_show_def get_pset_pending_def get_pset_pending_size_def get_pset_pending_mac_def
        get_pset_pending_mac_size_def mirrors_def arrays_ok_def fits_def)
qed

section \<open>Properties\<close>

text \<open>
  C40: the id file can be read back. It holds nine characters, and the eight digits before the newline
  are the identifier of the node in hexadecimal.
\<close>

theorem id_file_readable:
  assumes "vrr s = Some n"
  shows "\<exists>out. id_show s = Some (9, out @ [newline]) \<and> length out = 8 \<and> unhex out = unat (vn_id n)"
proof -
  have "unat (vn_id n) < 16 ^ 8" using unsigned_less [of "vn_id n"] by simp
  then show ?thesis using assms by (simp add: id_show_def get_vrr_id_def unhex_hex)
qed

theorem id_file_readable_witness:
  "\<exists>out. id_show demo_input = Some (9, out @ [newline]) \<and> unhex out = 5"
  using id_file_readable [of demo_input] by (fastforce simp: demo_input_defs)

text \<open>
  C36: the physical set files. On a running node each of the three files shows exactly the neighbours of
  its class, in list order, one line of 27 characters each; the text fits the page, and the count
  returned is one more than its length, as if the terminating NUL belonged to it.
\<close>

theorem pset_files_list_classes:
  assumes "sys_inv s"
  shows "\<forall>(show, P) \<in> {(pset_active_show, linked_active), (pset_not_active_show, linked_inactive), (pset_pending_show, link_pending)}.
     \<exists>out. show s = Some (int (length out) + 1, out) \<and> out = pset_text (filter P (pset s))
       \<and> length out = 27 * length (filter P (pset s)) \<and> length out < PAGE_SIZE"
proof -
  have inv: "pset_inv s" "core_inv s" using assms by (simp_all add: sys_inv_def sys_core_def)
  have "\<forall>e \<in> set (pset s). length (pl_mac e) = 6" using inv(1) by (auto simp: pset_inv_def entry_ok_def)
  then have len: "length (pset_text (filter P (pset s))) = 27 * length (filter P (pset s))" for P using length_pset_text by auto
  have "fits (pset s)" using inv(2) mirrors_fits by (auto simp: core_inv_def pstate_ok_def)
  then show ?thesis using pset_files [OF inv] by (auto simp: len fits_def)
qed

theorem pset_files_list_classes_witness:
  "pset_pending_show demo_input = Some (28, ''00000008 02:00:00:00:00:08'' @ [newline])"
proof -
  have t: "pset_text [demo_entry 8 PSET_PENDING] = ''00000008 02:00:00:00:00:08'' @ [newline]"
    by code_simp
  have f: "filter link_pending (pset demo_input) = [demo_entry 8 PSET_PENDING]"
    by (simp add: demo_input_defs link_pending_def demo_entry_def)
  obtain out where "pset_pending_show demo_input = Some (int (length out) + 1, out)" "out = pset_text [demo_entry 8 PSET_PENDING]" "length out = 27"
    using bspec [OF pset_files_list_classes [OF demo_input_ok], of "(pset_pending_show, link_pending)"] by (auto simp: f)
  then show ?thesis unfolding t by simp
qed

text \<open>
  C35: loading and unloading. Loading fails exactly when registering the protocol, the sysfs object or the
  socket family fails, and then leaves the protocol registered if that had succeeded; a failure to
  create the sysfs files is ignored. Unloading a loaded module unregisters everything and stops the
  timer, but leaves a queued hello work item queued, and when the sysfs files had not been created it
  drops a reference to the sysfs object that the module no longer holds.
\<close>

theorem load_and_unload:
  assumes "vrr_init K b (loaded i) = Some (r, t)"
  shows "(r = 0 \<longleftrightarrow> b_proto_register b = 0 \<and> b_kobject b \<and> b_sock_register b = 0)
    \<and> (if r = 0 then proto_registered t \<and> family_registered t \<and> pack_registered t \<and> timer_armed t
       else \<not> family_registered t \<and> \<not> pack_registered t \<and> \<not> timer_armed t \<and> proto_registered t = (b_proto_register b = 0))
    \<and> (r = 0 \<longrightarrow> \<not> proto_registered (vrr_exit t) \<and> \<not> family_registered (vrr_exit t) \<and> \<not> pack_registered (vrr_exit t)
         \<and> \<not> timer_armed (vrr_exit t) \<and> kobj_refs (vrr_exit t) = (if b_sysfs_group b = 0 then 0 else -1)
         \<and> hello_work (vrr_exit (vrr_timer_tick t)))"
proof -
  obtain x s1 s2 where 1: "vrr_node_init K (loaded i) = Some (x, s1)" and 2: "vrr_data_init s1 = Some s2"
    using assms by (auto simp: vrr_init_def run_simps)
  define s3 where "s3 = vrr_init_rcv (snd (pset_state_init K s2))"
  have f1: "proto_registered s1 = False \<and> kobj_refs s1 = 0 \<and> family_registered s1 = False \<and> pack_registered s1 = False \<and> timer_armed s1 = False"
    using 1
  proof (cases rule: vrr_node_init_run)
    case (1 j n)
    then show ?thesis by (simp add: loaded_def)
  next
    case 2
    then obtain j where "s1 = (loaded i)\<lparr>io := j, vrr := None\<rparr>" by blast
    then show ?thesis by (simp add: loaded_def)
  qed
  have "proto_registered s3 = False \<and> kobj_refs s3 = 0 \<and> family_registered s3 = False \<and> pack_registered s3 = False \<and> timer_armed s3 = False"
    using f1 2 by (auto simp: s3_def vrr_init_rcv_def pset_state_init_def kmalloc_def uninit_def tick_def vrr_data_init_def run_simps Let_def)
  moreover have "vrr_init K b (loaded i) = (if b_proto_register b \<noteq> 0 then Some (b_proto_register b, s3)
     else do {
       let s = s3\<lparr>proto_registered := True\<rparr>;
       if \<not> b_kobject b then Some (- ENOMEM, s)
       else do {
         let s = s\<lparr>kobj_refs := kobj_refs s + 1\<rparr>;
         let s = (if b_sysfs_group b \<noteq> 0 then s\<lparr>kobj_refs := kobj_refs s - 1\<rparr> else s);
         if b_sock_register b \<noteq> 0 then Some (b_sock_register b, s)
         else Some (0, mod_timer (s\<lparr>family_registered := True, pack_registered := True\<rparr>)) } })"
    using 1 2 by (simp add: vrr_init_def s3_def split_beta Let_def)
  ultimately show ?thesis
    using assms by (auto simp: mod_timer_def vrr_exit_def vrr_timer_tick_def Let_def split: if_splits)
qed

theorem load_and_unload_witness:
  "\<exists>t. vrr_init demo_env \<lparr>b_proto_register = 0, b_kobject = True, b_sysfs_group = -1, b_sock_register = 0\<rparr> (loaded idle_io) = Some (0, t)
     \<and> kobj_refs (vrr_exit t) = -1"
proof -
  let ?b = "\<lparr>b_proto_register = 0, b_kobject = True, b_sysfs_group = -1, b_sock_register = 0\<rparr>"
  obtain r t where run: "vrr_init demo_env ?b (loaded idle_io) = Some (r, t)"
    by (simp add: vrr_init_def vrr_node_init_def kmalloc_def get_random_bytes_def vrr_data_init_def get_vrr_id_def
        pset_state_init_def uninit_def Let_def split_beta)
  have "r = 0" "kobj_refs (vrr_exit t) = -1" using load_and_unload [OF run] by simp_all
  then show ?thesis using run by blast
qed

end
