(* ===== verification/Spec2Isabelle.thy ===== *)
theory Spec2Isabelle
  imports Admin
begin

text \<open>
  This development models Alpaca-VRR, a Linux kernel module that implements Virtual Ring Routing:
  nodes with random 32-bit identifiers form a ring; each keeps a \<^emph>\<open>physical set\<close> of radio neighbours,
  found with periodic hello packets, and a \<^emph>\<open>virtual set\<close> of neighbours on the ring, to which paths
  are set up over the physical links and recorded in routing tables. User programs send and receive
  over a socket family of its own.

  \<^bold>\<open>How C is represented.\<close> A C struct is a record with the fields of the source; the global variables of
  each source file are a record that extends the one of the files below it (\<open>kern\<close>, \<open>rt_globals\<close>,
  \<open>pset_globals\<close>, \<open>vset_globals\<close>, \<open>core_globals\<close>, \<open>sock_globals\<close>, \<open>input_globals\<close>, \<open>mod_globals\<close>), so an
  operation is a function on any extension of the record it needs. Integers that can wrap are words of
  their C width; packet contents are bytes in network order. A function with undefined behaviour
  (NULL dereference, access outside an array, a spin lock taken twice) has an \<open>option\<close> result, \<open>None\<close>
  for the undefined case; status codes are values inside \<open>Some\<close>. Loops over lists and trees are
  structural recursion. The one loop that waits for new packets, the \<open>restart\<close> loop of \<open>vrr_recvmsg\<close>,
  runs with fuel; \<open>recvmsg_decided_by_queue\<close> proves that one round more than the packets queued is
  enough and that more changes nothing.

  \<^bold>\<open>The kernel\<close> is a parameter. \<open>kenv\<close> holds the answers of its services as streams: whether an allocation
  succeeds, random numbers, the old contents of memory, the devices, \<open>rb_insert_color\<close> and \<open>sort\<close>;
  \<open>rx_layer\<close> is \<open>sk_receive_skb\<close>; \<open>boot\<close> holds the results of the registrations in \<open>vrr_init\<close>. What is
  relied on are three named hypotheses: rebalancing keeps the in-order sequence of the tree
  (\<open>rb_keeps_order\<close>), sorting with a comparison that only looks at addresses is a
  permutation fixed by the length of the array (\<open>sort_by_address\<close>), and delivery to a socket
  changes the sockets and the buffers only and keeps the socket table well formed (\<open>rx_lawful\<close>). \<open>demo_env\<close> and \<open>demo_rx\<close> satisfy them.

  \<^bold>\<open>Theories and sources.\<close>
  \<^item> \<open>VRR_Prelude\<close>: words, bounded arrays, the wire format; the locale \<open>state_frame\<close>, what a computation
    keeps and may change, with a rule per construct of the model; the locale \<open>keyed_list\<close>, linked lists
    searched by a key.
  \<^item> \<open>VRR_Types\<close>, \<open>Kernel\<close>: structures and constants of \<open>vrr.h\<close> and \<open>vrr_data.h\<close>, the header layout, buffers,
    locks and the kernel services.
  \<^item> \<open>Ring\<close> (\<open>vrr_data.c\<close>): \<open>get_diff\<close> is the metric of the ring (locale \<open>ring_metric\<close>); which side a
    stored difference describes.
  \<^item> \<open>Route_Table\<close> (\<open>vrr_data.c\<close>, \<open>rt_*\<close>): the tree of endpoints with their routes. The locale
    \<open>endpoint_index\<close> is the contract of the index; adding and removing routes refine a map from
    endpoints to lists, a lookup returns the hop of the newest path.
  \<^item> \<open>Phys_Set\<close>, \<open>Virt_Set\<close> (\<open>vrr_data.c\<close>, \<open>pset_*\<close>, \<open>vset_*\<close>): the two lists. The physical set refines a map;
    the virtual set keeps its differences right, and what it gives up when full is determined.
  \<^item> \<open>Node_Core\<close> (\<open>vrr_core.c\<close>): the node, the copy of the physical set by link class, failure
    detection, the activation timeout; \<open>Messages\<close> (\<open>vrr_core.c\<close>): the packets a node sends, and
    \<open>vrr_add\<close>; \<open>Transmit\<close> (\<open>vrr_output.c\<close>, \<open>build_header\<close>): output and forwarding.
  \<^item> \<open>Sockets\<close> (\<open>af_vrr.c\<close>): the socket table, \<open>connect\<close>, \<open>sendmsg\<close>, \<open>recvmsg\<close>, \<open>release\<close>.
  \<^item> \<open>Receive\<close> (\<open>vrr_input.c\<close>): dispatcher, a handler per packet type, the deferred neighbour updates and
    their link state machine.
  \<^item> \<open>Module_Life\<close> (\<open>vrr_mod.c\<close>): load, unload, timer, periodic work, sysfs files.
  \<^item> \<open>Net_Frame\<close>, \<open>System_Inv\<close>, \<open>System_Steps\<close>: frames of the handlers, the invariant \<open>sys_inv\<close> of a
    running node, and the module as a transition system with a rule per entry point the kernel calls.
    The locale \<open>transition_system\<close> proves that an inductive invariant holds in every state reached.
  \<^item> \<open>Handshake\<close>: a hello followed through sender and receiver, and the convergence of the exchange.
  \<^item> \<open>Safety\<close>: entry points that always return; hello sizes, failure counts and activation over time.
  \<^item> \<open>Data_Path\<close>: user data from \<open>vrr_sendmsg\<close> to \<open>vrr_recvmsg\<close>, with the accounting of buffers and
    device references.
  \<^item> \<open>Setup_Path\<close>: requests, setups, setup failures and teardowns, a join followed through two nodes, and
    the packets for which the code has no defined result.
  \<^item> \<open>Robust\<close>: every other packet is processed to the end.
  \<^item> \<open>Relay\<close>: paths of more than one hop, requests passed on and the search that leaves out their source.
  \<^item> \<open>Admin\<close>: the text of the sysfs files, and what loading and unloading leave registered.

  \<^bold>\<open>How the parts interact.\<close> The timer queues the periodic work, which ages neighbours, may activate the
  node and broadcasts a hello. A received hello becomes an update in a queue; the work item that
  empties it moves the link state, refreshes the class copy and may ask an active neighbour for a
  setup. Requests are forwarded by \<open>rt_get_next_exclude\<close>, answered by a setup or a setup failure, and
  \<open>vrr_add\<close> turns the virtual set they carry into further requests. A node that handles its own message calls
  the handler directly (\<open>vrr_local_rcv_setup\<close>, \<open>vrr_local_rcv_setup_fail\<close>).

  \<^bold>\<open>Not modelled.\<close> The operation, attribute and protocol tables and module metadata have no behaviour of their
  own. \<open>printk\<close> and the debug macros only print. Each entry point runs to completion as one step:
  preemption inside an entry point, and races on the lists the source walks without a lock
  (\<open>pset_state_update\<close>, \<open>detect_failures\<close>, \<open>pset_updates\<close>), are outside the model. Sleeping in
  \<open>vrr_recvmsg\<close> is an empty queue and its answer, not a suspended call. Freed list entries are
  dropped from their list, so only buffers, sockets, devices and kernel objects are counted. The test
  programs under \<open>src/test\<close> only call the socket interface.
\<close>

section \<open>A loaded module\<close>

text \<open>An environment in which every registration succeeds, and a socket layer that queues every packet.\<close>

definition demo_boot :: boot where
  "demo_boot = \<lparr>b_proto_register = 0, b_kobject = True, b_sysfs_group = 0, b_sock_register = 0\<rparr>"

definition demo_rx :: "'z rx_layer" where
  "demo_rx i skb s = (0, upd_sock i (\<lambda>k. k\<lparr>sk_receive_queue := sk_receive_queue k @ [skb]\<rparr>) s)"

definition demo_loaded :: mod_globals where
  "demo_loaded = snd (the (vrr_init demo_env demo_boot (loaded idle_io)))"

lemma demo_rx_lawful: "rx_lawful demo_rx"
  by (auto simp: rx_lawful_def demo_rx_def intro!: socks_inv_upd)

lemma demo_init: "vrr_init demo_env demo_boot (loaded idle_io) = Some (0, demo_loaded)"
  by (simp add: demo_loaded_def vrr_init_def vrr_node_init_def kmalloc_def get_random_bytes_def vrr_data_init_def get_vrr_id_def
      demo_boot_def pset_state_init_def uninit_def Let_def split_beta)

lemma demo_machine_init: "machine_init (demo_env, demo_rx, demo_loaded)"
proof -
  have "pstate demo_loaded \<noteq> None"
    by (simp add: demo_loaded_def vrr_init_def vrr_node_init_def kmalloc_def get_random_bytes_def vrr_data_init_def get_vrr_id_def
        demo_boot_def pset_state_init_def uninit_def Let_def split_beta mod_timer_def vrr_init_rcv_def)
  then show ?thesis using demo_init demo_rx_lawful by (auto simp: machine_init_def lawful_def)
qed

section \<open>Properties of the whole module\<close>



end
